theory Spec2Isabelle
  imports Complex_Main
begin

section \<open>Data model (types.ts)\<close>

text \<open>
  The status of a checkpoint is the string union
  \<^verbatim>\<open>'pending' | 'current' | 'completed'\<close>, the orb state the enum \<^verbatim>\<open>OrbState\<close>.
\<close>

datatype status = Pending | Current | Completed

datatype OrbState = IDLE | LISTENING | SPEAKING | THINKING | CELEBRATING

text \<open>
  \<^verbatim>\<open>interface Checkpoint { id; title; description; hint; status }\<close>. The field
  \<^verbatim>\<open>id\<close> is written \<open>id_cp\<close>, since \<open>id\<close> is the identity function of HOL.
\<close>

record Checkpoint =
  id_cp :: string
  title :: string
  description :: string
  hint :: string
  status :: status

section \<open>The checkpoint state machine (App.tsx)\<close>

text \<open>
  The constant \<^verbatim>\<open>INITIAL_CHECKPOINTS\<close>. A JavaScript string is a sequence of UTF-16
  code units; the two letters outside ASCII (e acute, i circumflex) are the code units
  0xE9 and 0xEE.
\<close>

definition INITIAL_CHECKPOINTS :: "Checkpoint list" where
  "INITIAL_CHECKPOINTS =
     [\<lparr>id_cp = ''greet'', title = ''The Encounter'',
        description = ''Greet the waiter at the caf'' @ [CHR 0xE9],
        hint = ''Bonjour !'', status = Current\<rparr>,
      \<lparr>id_cp = ''order_drink'', title = ''The Order'',
        description = ''Order a coffee (or another drink)'',
        hint = ''Je voudrais un caf'' @ [CHR 0xE9] @ '', s'' @ [CHR 0x27] @ ''il vous pla''
               @ [CHR 0xEE] @ ''t.'',
        status = Pending\<rparr>,
      \<lparr>id_cp = ''ask_bill'', title = ''The Bill'',
        description = ''Ask for the check'',
        hint = ''L'' @ [CHR 0x27] @ ''addition, s'' @ [CHR 0x27] @ ''il vous pla''
               @ [CHR 0xEE] @ ''t.'',
        status = Pending\<rparr>,
      \<lparr>id_cp = ''farewell'', title = ''Farewell'',
        description = ''Say goodbye politely'',
        hint = ''Merci, au revoir !'', status = Pending\<rparr>]"

text \<open>
  \<^verbatim>\<open>Array.prototype.findIndex\<close>: the index of the first element that satisfies the
  predicate; the source's \<^verbatim>\<open>-1\<close> (no such element) is \<open>None\<close>.
\<close>

fun findIndex :: "('a \<Rightarrow> bool) \<Rightarrow> 'a list \<Rightarrow> nat option" where
  "findIndex P [] = None"
| "findIndex P (x # xs) = (if P x then Some 0 else map_option Suc (findIndex P xs))"

text \<open>
  The updater that \<^verbatim>\<open>handleCheckpointComplete\<close> passes to \<^verbatim>\<open>setCheckpoints\<close>:
  \<^verbatim>\<open>
  prev => {
    const idx = prev.findIndex(c => c.id === id);
    if (idx === -1) return prev; // Invalid ID
    const newCheckpoints = [...prev];
    newCheckpoints[idx] = { ...newCheckpoints[idx], status: 'completed' };
    if (idx + 1 < newCheckpoints.length) {
      newCheckpoints[idx + 1] = { ...newCheckpoints[idx + 1], status: 'current' };
    }
    return newCheckpoints;
  }\<close>
  Both indexed writes are in range: \<open>idx\<close> comes from \<open>findIndex\<close>, and the second
  is guarded.
\<close>

definition complete_checkpoint :: "string \<Rightarrow> Checkpoint list \<Rightarrow> Checkpoint list" where
  "complete_checkpoint i prev =
     (case findIndex (\<lambda>c. id_cp c = i) prev of
        None \<Rightarrow> prev
      | Some idx \<Rightarrow>
          (let newCheckpoints = prev[idx := (prev ! idx)\<lparr>status := Completed\<rparr>]
           in if idx + 1 < length newCheckpoints
              then newCheckpoints[idx + 1 := (newCheckpoints ! (idx + 1))\<lparr>status := Current\<rparr>]
              else newCheckpoints))"

text \<open>A sequence of \<^verbatim>\<open>complete(id)\<close> calls, applied from left to right.\<close>

definition complete_all :: "string list \<Rightarrow> Checkpoint list \<Rightarrow> Checkpoint list" where
  "complete_all ids cps = foldl (\<lambda>s i. complete_checkpoint i s) cps ids"

text \<open>
  The part of the component state of \<^verbatim>\<open>App\<close> that the completion handler touches.
  \<open>timeouts\<close> holds the pending \<^verbatim>\<open>setTimeout\<close> callbacks of the form
  \<^verbatim>\<open>() => setOrbState(x)\<close>, each with its delay in milliseconds, in the order in which
  they were registered.
\<close>

record App =
  orbState :: OrbState
  checkpoints :: "Checkpoint list"
  error :: "string option"
  timeouts :: "(nat \<times> OrbState) list"

text \<open>
  \<^verbatim>\<open>
  const handleCheckpointComplete = useCallback((id: string) => {
    setOrbState(OrbState.CELEBRATING);
    setTimeout(() => setOrbState(OrbState.IDLE), 2500);
    setCheckpoints(prev => ...);
  }, []);\<close>
\<close>

definition handleCheckpointComplete :: "string \<Rightarrow> App \<Rightarrow> App" where
  "handleCheckpointComplete i app =
     (let a1 = app\<lparr>orbState := CELEBRATING\<rparr>;
          a2 = a1\<lparr>timeouts := timeouts a1 @ [(2500, IDLE)]\<rparr>
      in a2\<lparr>checkpoints := complete_checkpoint i (checkpoints a2)\<rparr>)"

text \<open>A pending timeout fires: its callback sets the orb state.\<close>

definition fire_timeout :: "nat \<times> OrbState \<Rightarrow> App \<Rightarrow> App" where
  "fire_timeout t app = app\<lparr>orbState := snd t, timeouts := remove1 t (timeouts app)\<rparr>"

text \<open>
  The status pattern of a list of \<open>n\<close> checkpoints of which the first \<open>k\<close> are done:
  completed below \<open>k\<close>, current at \<open>k\<close>, pending above. For \<open>k = n\<close> all are
  completed.
\<close>

definition progress :: "nat \<Rightarrow> nat \<Rightarrow> status list" where
  "progress k n =
     map (\<lambda>j. if j < k then Completed else if j = k then Current else Pending) [0..<n]"

text \<open>
  The invariant of the data model: at most one checkpoint is current, every checkpoint
  before a current one is completed, every checkpoint after it is pending.
\<close>

definition checkpoint_invariant :: "Checkpoint list \<Rightarrow> bool" where
  "checkpoint_invariant cps \<longleftrightarrow>
     length (filter (\<lambda>c. status c = Current) cps) \<le> 1 \<and>
     (\<forall>i < length cps. status (cps ! i) = Current \<longrightarrow>
        (\<forall>j < i. status (cps ! j) = Completed) \<and>
        (\<forall>j < length cps. i < j \<longrightarrow> status (cps ! j) = Pending))"

text \<open>
  A call sequence is in order when every call names, at the moment it is made, either
  no checkpoint of the list or the checkpoint whose status is current.
\<close>

fun names_current :: "Checkpoint list \<Rightarrow> string list \<Rightarrow> bool" where
  "names_current cps [] = True"
| "names_current cps (i # ids) =
     ((case findIndex (\<lambda>c. id_cp c = i) cps of
         None \<Rightarrow> True
       | Some idx \<Rightarrow> status (cps ! idx) = Current) \<and>
      names_current (complete_checkpoint i cps) ids)"

text \<open>An initial list: checkpoint 0 current, all others pending.\<close>

definition initial_list :: "Checkpoint list \<Rightarrow> bool" where
  "initial_list cps \<longleftrightarrow> map status cps = progress 0 (length cps)"

section \<open>The transcript handlers (App.tsx)\<close>

datatype role = User | Assistant

text \<open>
  \<^verbatim>\<open>interface ChatMessage { id; role; text; isFinal?: boolean }\<close>. The optional field
  \<^verbatim>\<open>isFinal\<close> is an option: \<open>None\<close> is the absent (\<^verbatim>\<open>undefined\<close>) field.
\<close>

record ChatMessage =
  id_msg :: string
  role :: role
  text_msg :: string
  isFinal :: "bool option"

text \<open>
  The handler that \<^verbatim>\<open>handleStart\<close> installs on the service, and so the one that
  receives the transcript events:
  \<^verbatim>\<open>
  service.onTranscriptUpdate = (role, text, isFinal) => {
    setMessages(prev => {
      const last = prev[prev.length - 1];
      if (last && last.role === role) {
        return [...prev.slice(0, -1), { ...last, text: last.text + text }];
      }
      return [...prev, { id: Date.now().toString(), role, text }];
    });
  };\<close>
  The first argument \<open>now\<close> is the value of \<^verbatim>\<open>Date.now().toString()\<close> at the call.
\<close>

definition onTranscriptUpdate ::
  "string \<Rightarrow> role \<Rightarrow> string \<Rightarrow> bool \<Rightarrow> ChatMessage list \<Rightarrow> ChatMessage list" where
  "onTranscriptUpdate now r t fin prev =
     (if prev \<noteq> [] \<and> role (last prev) = r
      then butlast prev @ [(last prev)\<lparr>text_msg := text_msg (last prev) @ t\<rparr>]
      else prev @ [\<lparr>id_msg = now, role = r, text_msg = t, isFinal = None\<rparr>])"

text \<open>
  The callback \<^verbatim>\<open>handleTranscriptUpdate\<close>, which is defined in the component and
  installed nowhere; its message updater:
  \<^verbatim>\<open>
  setMessages(prev => {
    const lastMsg = prev[prev.length - 1];
    if (lastMsg && lastMsg.role === role && !lastMsg.isFinal) {
      const updated = [...prev];
      updated[updated.length - 1] = { ...lastMsg, text: lastMsg.text + text, isFinal };
      return updated;
    } else {
      return [...prev, { id: Date.now().toString(), role, text, isFinal }];
    }
  });\<close>
  \<^verbatim>\<open>!lastMsg.isFinal\<close> holds for an absent flag as for \<^verbatim>\<open>false\<close>.
\<close>

definition handleTranscriptUpdate ::
  "string \<Rightarrow> role \<Rightarrow> string \<Rightarrow> bool \<Rightarrow> ChatMessage list \<Rightarrow> ChatMessage list" where
  "handleTranscriptUpdate now r t fin prev =
     (if prev \<noteq> [] \<and> role (last prev) = r \<and> isFinal (last prev) \<noteq> Some True
      then prev[length prev - 1 :=
                  (last prev)\<lparr>text_msg := text_msg (last prev) @ t, isFinal := Some fin\<rparr>]
      else prev @ [\<lparr>id_msg = now, role = r, text_msg = t, isFinal = Some fin\<rparr>])"

text \<open>
  A stream of transcript events \<open>(now, role, textFragment, isFinal)\<close>, fed to a handler
  from left to right.
\<close>

definition feed ::
  "(string \<Rightarrow> role \<Rightarrow> string \<Rightarrow> bool \<Rightarrow> ChatMessage list \<Rightarrow> ChatMessage list) \<Rightarrow>
   (string \<times> role \<times> string \<times> bool) list \<Rightarrow> ChatMessage list \<Rightarrow> ChatMessage list" where
  "feed handler evs msgs = foldl (\<lambda>prev (now, r, t, fin). handler now r t fin prev) msgs evs"

text \<open>No two neighbouring turns of a transcript have the same role.\<close>

definition alternating :: "ChatMessage list \<Rightarrow> bool" where
  "alternating ms \<longleftrightarrow> (\<forall>i. Suc i < length ms \<longrightarrow> role (ms ! i) \<noteq> role (ms ! Suc i))"

section \<open>The playback scheduler (geminiService.ts, handleMessage, part 1)\<close>

text \<open>
  The fields of \<^verbatim>\<open>GeminiLiveService\<close> that the audio branch of \<^verbatim>\<open>handleMessage\<close>
  reads and writes, with its calls to the outside recorded in order. The numbers of
  JavaScript are modelled as real numbers. The \<^verbatim>\<open>AudioBufferSourceNode\<close>s are named by
  their number of creation, so \<open>sources\<close> is the \<^verbatim>\<open>Set\<close> of active nodes, \<open>created\<close>
  the number of nodes made so far, \<open>starts\<close> the calls \<^verbatim>\<open>source.start(t)\<close> and
  \<open>stateChanges\<close> the calls \<^verbatim>\<open>onStateChange(b)\<close>.
\<close>

record playback =
  nextStartTime :: real
  sources :: "nat set"
  created :: nat
  starts :: "(nat \<times> real) list"
  stateChanges :: "bool list"

text \<open>The fields of a service as its constructor leaves them.\<close>

definition new_playback :: playback where
  "new_playback =
     \<lparr>nextStartTime = 0, sources = {}, created = 0, starts = [], stateChanges = []\<rparr>"

text \<open>
  What the decoding of an audio chunk gives: \<^verbatim>\<open>base64ToArrayBuffer\<close> throws, or
  the promise of \<^verbatim>\<open>await decodeAudioData(...)\<close> rejects, or it yields an
  \<^verbatim>\<open>AudioBuffer\<close>, of which only the duration is read. Both functions are imported
  from \<^verbatim>\<open>utils/audioUtils\<close>; which of the three happens is a parameter of the model.
\<close>

datatype decoded = Base64Fails | DecodeFails | Buffer real

text \<open>
  The audio branch, taken when the message carries audio data and the output context
  and node exist:
  \<^verbatim>\<open>
  this.onStateChange(true);
  const audioData = new Uint8Array(base64ToArrayBuffer(base64Audio));
  this.nextStartTime = Math.max(this.nextStartTime, this.outputAudioContext.currentTime);
  const audioBuffer = await decodeAudioData(...);
  const source = this.outputAudioContext.createBufferSource();
  source.addEventListener('ended', ...);
  source.start(this.nextStartTime);
  this.nextStartTime += audioBuffer.duration;
  this.sources.add(source);\<close>
  When the decoding fails the rest of the handler is skipped. The branch is one step
  of the model: \<open>currentTime\<close> is the output clock when the message arrives, and a
  message is handled to its end before the next one is taken up.
\<close>

definition handleAudio :: "real \<Rightarrow> decoded \<Rightarrow> playback \<Rightarrow> playback" where
  "handleAudio currentTime audio s =
     (let s1 = s\<lparr>stateChanges := stateChanges s @ [True]\<rparr>;
          s2 = s1\<lparr>nextStartTime := max (nextStartTime s1) currentTime\<rparr>
      in case audio of
           Base64Fails \<Rightarrow> s1
         | DecodeFails \<Rightarrow> s2
         | Buffer duration \<Rightarrow>
             (let source = created s2;
                  s3 = s2\<lparr>created := Suc source\<rparr>;
                  s4 = s3\<lparr>starts := starts s3 @ [(source, nextStartTime s3)]\<rparr>;
                  s5 = s4\<lparr>nextStartTime := nextStartTime s4 + duration\<rparr>
              in s5\<lparr>sources := insert source (sources s5)\<rparr>))"

text \<open>
  The listener of the \<^verbatim>\<open>ended\<close> event of a source:
  \<^verbatim>\<open>
  this.sources.delete(source);
  if (this.sources.size === 0) this.onStateChange(false);\<close>
\<close>

definition onEnded :: "nat \<Rightarrow> playback \<Rightarrow> playback" where
  "onEnded source s =
     (let s1 = s\<lparr>sources := sources s - {source}\<rparr>
      in if sources s1 = {} then s1\<lparr>stateChanges := stateChanges s1 @ [False]\<rparr> else s1)"

text \<open>
  Decoded buffers \<open>(clock at arrival, duration)\<close>, handled in the order of their arrival.
\<close>

definition play :: "(real \<times> real) list \<Rightarrow> playback \<Rightarrow> playback" where
  "play bufs s = foldl (\<lambda>s (t, d). handleAudio t (Buffer d) s) s bufs"

text \<open>The start times that a run from \<open>s\<close> to \<open>s'\<close> has assigned, in order.\<close>

definition start_times :: "playback \<Rightarrow> playback \<Rightarrow> real list" where
  "start_times s s' = map snd (drop (length (starts s)) (starts s'))"

text \<open>The signals that a step from \<open>s\<close> to \<open>s'\<close> has emitted through \<^verbatim>\<open>onStateChange\<close>.\<close>

definition emitted :: "playback \<Rightarrow> playback \<Rightarrow> bool list" where
  "emitted s s' = drop (length (stateChanges s)) (stateChanges s')"

text \<open>
  The start times as a function of the cursor and the buffers alone: what the
  scheduler computes when the bookkeeping of the service is left out.
\<close>

fun schedule :: "real \<Rightarrow> (real \<times> real) list \<Rightarrow> real list" where
  "schedule nst [] = []"
| "schedule nst ((t, d) # bufs) = max nst t # schedule (max nst t + d) bufs"

text \<open>
  The two chunks of the end-to-end scenario of the specification: 0.5 s of audio
  arriving at clock 0, then 0.3 s arriving at clock 0.1.
\<close>

definition scenario_buffers :: "(real \<times> real) list" where
  "scenario_buffers = [(0, 0.5), (0.1, 0.3)]"

text \<open>
  Two states for the examples: one chunk of one second has been scheduled on a new
  service, and a second one after it. Their buffers are the sources 0 and 1.
\<close>

definition one_playing :: playback where
  "one_playing = handleAudio 0 (Buffer 1) new_playback"

definition two_playing :: playback where
  "two_playing = handleAudio 0 (Buffer 1) one_playing"

section \<open>Tool calls (geminiService.ts, handleMessage, part 3)\<close>

text \<open>
  A function call of an inbound \<^verbatim>\<open>toolCall\<close> message. The arguments object may be
  absent (\<open>None\<close>); when present it is a finite table from property names to values, of
  which only the string under \<^verbatim>\<open>checkpointId\<close> is read.
\<close>

record FunctionCall =
  id_fc :: string
  name_fc :: string
  args_fc :: "(string \<times> string) list option"

record ToolResponse =
  id_resp :: string
  name_resp :: string
  result_resp :: string

datatype js_error = TypeError | InvalidStateError | InvalidCharacterError | EncodingError

text \<open>
  What the loop does to the outside: the calls of \<^verbatim>\<open>onCheckpointComplete\<close> with their
  argument (\<open>None\<close> for \<^verbatim>\<open>undefined\<close>), and the calls of \<^verbatim>\<open>session.sendToolResponse\<close>.
\<close>

record tool_effects =
  completions :: "string option list"
  responses :: "ToolResponse list"

text \<open>
  \<^verbatim>\<open>
  for (const fc of message.toolCall.functionCalls) {
    if (fc.name === 'markCheckpointComplete') {
      const id = (fc.args as any).checkpointId;
      this.onCheckpointComplete(id);
      this.sessionPromise?.then(session => {
        session.sendToolResponse({ functionResponses: {
          id: fc.id, name: fc.name, response: { result: "Checkpoint marked." } } });
      });
    }
  }\<close>
  \<open>session\<close> says that \<^verbatim>\<open>sessionPromise\<close> is set and is fulfilled, so that the
  callback of \<^verbatim>\<open>then\<close> runs. Reading a property of an absent arguments object throws
  a \<^verbatim>\<open>TypeError\<close>, which ends the loop; the responses queued before it are still sent.
\<close>

fun handleToolCalls ::
  "bool \<Rightarrow> FunctionCall list \<Rightarrow> tool_effects \<Rightarrow> js_error option \<times> tool_effects" where
  "handleToolCalls session [] eff = (None, eff)"
| "handleToolCalls session (fc # fcs) eff =
     (if name_fc fc = ''markCheckpointComplete''
      then (case args_fc fc of
              None \<Rightarrow> (Some TypeError, eff)
            | Some a \<Rightarrow>
                handleToolCalls session fcs
                  (eff\<lparr>completions := completions eff @ [map_of a ''checkpointId''],
                       responses := responses eff @
                         (if session
                          then [\<lparr>id_resp = id_fc fc, name_resp = name_fc fc,
                                 result_resp = ''Checkpoint marked.''\<rparr>]
                          else [])\<rparr>))
      else handleToolCalls session fcs eff)"

definition no_effects :: tool_effects where
  "no_effects = \<lparr>completions = [], responses = []\<rparr>"

text \<open>The response that answers a function call.\<close>

definition response_to :: "FunctionCall \<Rightarrow> ToolResponse" where
  "response_to fc =
     \<lparr>id_resp = id_fc fc, name_resp = name_fc fc, result_resp = ''Checkpoint marked.''\<rparr>"

section \<open>The message handler (geminiService.ts, handleMessage)\<close>

text \<open>
  An inbound message, as far as the handler reads it: the audio chunk of the first part
  of the model turn, if any, given by what its decoding yields; the texts of the output
  and the input transcription, if any; the marker \<^verbatim>\<open>turnComplete\<close>; and the function
  calls of \<^verbatim>\<open>toolCall\<close>, if the message has one.
\<close>

record LiveServerMessage =
  audio_data :: "decoded option"
  outputTranscription :: "string option"
  inputTranscription :: "string option"
  turnComplete :: bool
  toolCall :: "FunctionCall list option"

text \<open>
  The service, as far as the handler reads and writes it: whether the output context
  and the output node are set, the playback fields, the calls of
  \<^verbatim>\<open>onTranscriptUpdate\<close> in order, and the effects of the tool-call loop.
\<close>

record service =
  output_ready :: bool
  player :: playback
  transcript_calls :: "(role \<times> string \<times> bool) list"
  tool :: tool_effects

definition new_service :: service where
  "new_service =
     \<lparr>output_ready = True, player = new_playback, transcript_calls = [], tool = no_effects\<rparr>"

text \<open>The exception with which the audio branch leaves the handler, if it does.\<close>

definition audio_throws :: "decoded \<Rightarrow> js_error option" where
  "audio_throws a =
     (case a of Base64Fails \<Rightarrow> Some InvalidCharacterError
              | DecodeFails \<Rightarrow> Some EncodingError
              | Buffer d \<Rightarrow> None)"

text \<open>
  \<^verbatim>\<open>
  private async handleMessage(message: LiveServerMessage) {
    const base64Audio = message.serverContent?.modelTurn?.parts?.[0]?.inlineData?.data;
    if (base64Audio && this.outputAudioContext && this.outputNode) { ... }
    const outputTranscript = message.serverContent?.outputTranscription;
    if (outputTranscript?.text) {
      this.onTranscriptUpdate('assistant', outputTranscript.text, true);
    }
    const inputTranscript = message.serverContent?.inputTranscription;
    if (inputTranscript?.text) {
      this.onTranscriptUpdate('user', inputTranscript.text, false);
    }
    if (message.serverContent?.turnComplete) { }
    if (message.toolCall) {
      for (const fc of message.toolCall.functionCalls) { ... }
    }
  }\<close>
  The function has no \<^verbatim>\<open>try\<close>: an exception in the audio branch ends it, and neither
  the transcriptions nor the tool calls of the message are looked at. An empty text is
  falsy, so it is not passed on.
\<close>

definition handleMessage ::
  "bool \<Rightarrow> real \<Rightarrow> LiveServerMessage \<Rightarrow> service \<Rightarrow> js_error option \<times> service" where
  "handleMessage session currentTime message sv =
     (let (thrown, sv1) =
            (case audio_data message of
               None \<Rightarrow> (None, sv)
             | Some a \<Rightarrow>
                 if output_ready sv
                 then (audio_throws a, sv\<lparr>player := handleAudio currentTime a (player sv)\<rparr>)
                 else (None, sv))
      in case thrown of
           Some e \<Rightarrow> (Some e, sv1)
         | None \<Rightarrow>
             (let sv2 =
                    (case outputTranscription message of
                       None \<Rightarrow> sv1
                     | Some txt \<Rightarrow>
                         if txt \<noteq> []
                         then sv1\<lparr>transcript_calls :=
                                    transcript_calls sv1 @ [(Assistant, txt, True)]\<rparr>
                         else sv1);
                  sv3 =
                    (case inputTranscription message of
                       None \<Rightarrow> sv2
                     | Some txt \<Rightarrow>
                         if txt \<noteq> []
                         then sv2\<lparr>transcript_calls :=
                                    transcript_calls sv2 @ [(User, txt, False)]\<rparr>
                         else sv2)
              in case toolCall message of
                   None \<Rightarrow> (None, sv3)
                 | Some fcs \<Rightarrow>
                     (case handleToolCalls session fcs (tool sv3) of
                        (e, eff) \<Rightarrow> (e, sv3\<lparr>tool := eff\<rparr>))))"

text \<open>
  The handling of a message reaches the tool calls when its audio branch is not taken
  or does not throw.
\<close>

definition reaches_tool_calls :: "LiveServerMessage \<Rightarrow> service \<Rightarrow> bool" where
  "reaches_tool_calls message sv =
     (case audio_data message of
        None \<Rightarrow> True
      | Some a \<Rightarrow> \<not> output_ready sv \<or> audio_throws a = None)"

text \<open>
  Messages for the examples: a call of the declared tool, a call of another name, a
  message that carries nothing but tool calls, and one that carries a chunk of audio
  that decodes, both transcriptions and tool calls.
\<close>

definition checkpoint_call :: FunctionCall where
  "checkpoint_call =
     \<lparr>id_fc = ''call-1'', name_fc = ''markCheckpointComplete'',
      args_fc = Some [(''checkpointId'', ''greet'')]\<rparr>"

definition other_call :: FunctionCall where
  "other_call = \<lparr>id_fc = ''call-2'', name_fc = ''endSession'', args_fc = None\<rparr>"

definition tool_message :: "FunctionCall list \<Rightarrow> LiveServerMessage" where
  "tool_message fcs =
     \<lparr>audio_data = None, outputTranscription = None, inputTranscription = None,
      turnComplete = False, toolCall = Some fcs\<rparr>"

definition full_message :: "FunctionCall list \<Rightarrow> LiveServerMessage" where
  "full_message fcs =
     \<lparr>audio_data = Some (Buffer 0.5), outputTranscription = Some ''Bonjour'',
      inputTranscription = Some ''Salut'', turnComplete = True, toolCall = Some fcs\<rparr>"

section \<open>Releasing the resources (geminiService.ts, disconnect)\<close>

text \<open>
  The four resources that \<^verbatim>\<open>disconnect\<close> touches. A field that is \<^verbatim>\<open>null\<close> is
  \<open>None\<close>. Of the script processor the model keeps whether it is connected and whether
  \<^verbatim>\<open>onaudioprocess\<close> is set; of the stream its tracks, each live (\<open>True\<close>) or stopped;
  of an audio context its state.
\<close>

record ScriptProcessor =
  connected :: bool
  onaudioprocess :: bool

datatype context_state = Suspended | Running | Closed

record resources =
  processor :: "ScriptProcessor option"
  stream :: "bool list option"
  inputAudioContext :: "context_state option"
  outputAudioContext :: "context_state option"

text \<open>
  The calls into the browser that may fail. Which of them fail is not decided by the
  program, so it is a parameter \<open>fails\<close> of the model. \<open>TrackStop n\<close> is \<^verbatim>\<open>t.stop()\<close>
  on track \<open>n\<close> of the stream.
\<close>

datatype release = ProcessorDisconnect | TrackStop nat | InputClose | OutputClose

text \<open>
  \<^verbatim>\<open>this.stream.getTracks().forEach(t => t.stop())\<close>, from track \<open>n\<close> on: the tracks
  after a failing call stay as they are.
\<close>

fun stop_tracks :: "(release \<Rightarrow> bool) \<Rightarrow> nat \<Rightarrow> bool list \<Rightarrow> js_error option \<times> bool list" where
  "stop_tracks fails n [] = (None, [])"
| "stop_tracks fails n (t # ts) =
     (if fails (TrackStop n) then (Some InvalidStateError, t # ts)
      else (case stop_tracks fails (Suc n) ts of (e, ts') \<Rightarrow> (e, False # ts')))"

text \<open>
  \<^verbatim>\<open>
  async disconnect() {
    if (this.processor) {
      this.processor.disconnect();
      this.processor.onaudioprocess = null;
    }
    if (this.stream) {
      this.stream.getTracks().forEach(t => t.stop());
    }
    if (this.inputAudioContext) await this.inputAudioContext.close();
    if (this.outputAudioContext) await this.outputAudioContext.close();
  }\<close>
  There is no \<^verbatim>\<open>try\<close> in it: the first failing call ends it with that error. The
  result is the error, if any, and the resources as the call leaves them.
\<close>

definition release_processor :: "(release \<Rightarrow> bool) \<Rightarrow> resources \<Rightarrow> js_error option \<times> resources" where
  "release_processor fails s =
     (case processor s of
        None \<Rightarrow> (None, s)
      | Some p \<Rightarrow>
          if fails ProcessorDisconnect then (Some InvalidStateError, s)
          else (None, s\<lparr>processor := Some (p\<lparr>connected := False, onaudioprocess := False\<rparr>)\<rparr>))"

definition release_stream :: "(release \<Rightarrow> bool) \<Rightarrow> resources \<Rightarrow> js_error option \<times> resources" where
  "release_stream fails s =
     (case stream s of
        None \<Rightarrow> (None, s)
      | Some ts \<Rightarrow> (case stop_tracks fails 0 ts of (e, ts') \<Rightarrow> (e, s\<lparr>stream := Some ts'\<rparr>)))"

definition close_input :: "(release \<Rightarrow> bool) \<Rightarrow> resources \<Rightarrow> js_error option \<times> resources" where
  "close_input fails s =
     (case inputAudioContext s of
        None \<Rightarrow> (None, s)
      | Some c \<Rightarrow>
          if fails InputClose then (Some InvalidStateError, s)
          else (None, s\<lparr>inputAudioContext := Some Closed\<rparr>))"

definition close_output :: "(release \<Rightarrow> bool) \<Rightarrow> resources \<Rightarrow> js_error option \<times> resources" where
  "close_output fails s =
     (case outputAudioContext s of
        None \<Rightarrow> (None, s)
      | Some c \<Rightarrow>
          if fails OutputClose then (Some InvalidStateError, s)
          else (None, s\<lparr>outputAudioContext := Some Closed\<rparr>))"

text \<open>Sequencing: a later step runs only when the earlier one has not thrown.\<close>

definition and_then ::
  "js_error option \<times> resources \<Rightarrow> (resources \<Rightarrow> js_error option \<times> resources) \<Rightarrow>
   js_error option \<times> resources" where
  "and_then r f = (case r of (Some e, s) \<Rightarrow> (Some e, s) | (None, s) \<Rightarrow> f s)"

definition disconnect :: "(release \<Rightarrow> bool) \<Rightarrow> resources \<Rightarrow> js_error option \<times> resources" where
  "disconnect fails s =
     and_then (and_then (and_then (release_processor fails s) (release_stream fails))
                 (close_input fails))
       (close_output fails)"

text \<open>Every resource that was acquired is released.\<close>

definition all_released :: "resources \<Rightarrow> bool" where
  "all_released s \<longleftrightarrow>
     (case processor s of None \<Rightarrow> True | Some p \<Rightarrow> \<not> connected p \<and> \<not> onaudioprocess p) \<and>
     (case stream s of None \<Rightarrow> True | Some ts \<Rightarrow> list_all (\<lambda>t. \<not> t) ts) \<and>
     (case inputAudioContext s of None \<Rightarrow> True | Some c \<Rightarrow> c = Closed) \<and>
     (case outputAudioContext s of None \<Rightarrow> True | Some c \<Rightarrow> c = Closed)"

text \<open>
  What the steps of a release leave, and which of them fails. The tracks of a service
  without a stream are none; \<open>stopped_before_failure\<close> counts the tracks, from the
  first on, whose \<^verbatim>\<open>stop\<close> does not fail, so it is the number of tracks when none fails.
\<close>

definition tracks :: "resources \<Rightarrow> bool list" where
  "tracks s = (case stream s of None \<Rightarrow> [] | Some ts \<Rightarrow> ts)"

definition stopped_before_failure :: "(release \<Rightarrow> bool) \<Rightarrow> resources \<Rightarrow> nat" where
  "stopped_before_failure fails s =
     length (takeWhile (\<lambda>j. \<not> fails (TrackStop j)) [0..<length (tracks s)])"

definition processor_fails :: "(release \<Rightarrow> bool) \<Rightarrow> resources \<Rightarrow> bool" where
  "processor_fails fails s \<longleftrightarrow> processor s \<noteq> None \<and> fails ProcessorDisconnect"

definition input_fails :: "(release \<Rightarrow> bool) \<Rightarrow> resources \<Rightarrow> bool" where
  "input_fails fails s \<longleftrightarrow> inputAudioContext s \<noteq> None \<and> fails InputClose"

definition output_fails :: "(release \<Rightarrow> bool) \<Rightarrow> resources \<Rightarrow> bool" where
  "output_fails fails s \<longleftrightarrow> outputAudioContext s \<noteq> None \<and> fails OutputClose"

definition processor_released :: "resources \<Rightarrow> resources" where
  "processor_released s =
     s\<lparr>processor :=
         map_option (\<lambda>p. p\<lparr>connected := False, onaudioprocess := False\<rparr>) (processor s)\<rparr>"

definition tracks_stopped :: "nat \<Rightarrow> resources \<Rightarrow> resources" where
  "tracks_stopped k s =
     s\<lparr>stream := map_option (\<lambda>ts. map (\<lambda>t. False) (take k ts) @ drop k ts) (stream s)\<rparr>"

definition input_closed :: "resources \<Rightarrow> resources" where
  "input_closed s = s\<lparr>inputAudioContext := map_option (\<lambda>_. Closed) (inputAudioContext s)\<rparr>"

definition output_closed :: "resources \<Rightarrow> resources" where
  "output_closed s = s\<lparr>outputAudioContext := map_option (\<lambda>_. Closed) (outputAudioContext s)\<rparr>"

text \<open>A service on which \<^verbatim>\<open>connect\<close> has acquired all four resources.\<close>

definition connected_resources :: resources where
  "connected_resources =
     \<lparr>processor = Some \<lparr>connected = True, onaudioprocess = True\<rparr>,
      stream = Some [True],
      inputAudioContext = Some Running,
      outputAudioContext = Some Running\<rparr>"

text \<open>The same service after a release in which nothing failed.\<close>

definition released_resources :: resources where
  "released_resources =
     \<lparr>processor = Some \<lparr>connected = False, onaudioprocess = False\<rparr>,
      stream = Some [False],
      inputAudioContext = Some Closed,
      outputAudioContext = Some Closed\<rparr>"

text \<open>A service that has never connected: every field is \<^verbatim>\<open>null\<close>.\<close>

definition null_resources :: resources where
  "null_resources =
     \<lparr>processor = None, stream = None, inputAudioContext = None, outputAudioContext = None\<rparr>"

section \<open>The volume meter (geminiService.ts, handleOpen)\<close>

text \<open>
  \<^verbatim>\<open>
  let sum = 0;
  for (let i = 0; i < inputData.length; i++) sum += inputData[i] * inputData[i];
  const rms = Math.sqrt(sum / inputData.length);
  this.onVolumeUpdate(rms * 5);\<close>
  The samples are modelled as real numbers. On an empty block the division is
  \<^verbatim>\<open>0 / 0\<close> and the emitted value is \<^verbatim>\<open>NaN\<close>, which is no number: \<open>None\<close>.
\<close>

definition sum_loop :: "real list \<Rightarrow> real" where
  "sum_loop inputData = foldl (\<lambda>sum x. sum + x * x) 0 inputData"

definition volume :: "real list \<Rightarrow> real option" where
  "volume inputData =
     (if length inputData = 0 then None
      else (let rms = sqrt (sum_loop inputData / real (length inputData)) in Some (rms * 5)))"

text \<open>
  The root mean square as the specification words it: the square root of the mean of
  the squares of the samples.
\<close>

definition rms_spec :: "real list \<Rightarrow> real" where
  "rms_spec xs = sqrt ((\<Sum>x\<leftarrow>xs. x\<^sup>2) / real (length xs))"

section \<open>Facts about the checkpoint state machine\<close>

lemma findIndex_None: "findIndex P xs = None \<longleftrightarrow> (\<forall>x \<in> set xs. \<not> P x)"
  by (induction xs) auto

lemma findIndex_Some:
  "findIndex P xs = Some i \<Longrightarrow> i < length xs \<and> P (xs ! i)"
proof (induction xs arbitrary: i)
  case Nil
  then show ?case by simp
next
  case (Cons x xs)
  then show ?case by (auto split: if_splits)
qed

lemma findIndex_distinct:
  "distinct (map f xs) \<Longrightarrow> k < length xs \<Longrightarrow> findIndex (\<lambda>c. f c = f (xs ! k)) xs = Some k"
proof (induction xs arbitrary: k)
  case Nil
  then show ?case by simp
next
  case (Cons x xs)
  show ?case
  proof (cases k)
    case 0
    then show ?thesis by simp
  next
    case (Suc m)
    with Cons.prems have m: "m < length xs" and d: "distinct (map f xs)"
      and nx: "f x \<notin> f ` set xs" by auto
    from m nx have "f x \<noteq> f (xs ! m)" by (metis imageI nth_mem)
    with Cons.IH [OF d m] Suc show ?thesis by simp
  qed
qed

lemma length_complete_checkpoint [simp]:
  "length (complete_checkpoint i cps) = length cps"
  by (simp add: complete_checkpoint_def Let_def split: option.splits)

lemma map_update_field:
  "map f (xs[i := g (xs ! i)]) = (map f xs)[i := f (g (xs ! i))]"
  by (simp add: map_update)

lemma ids_complete_checkpoint [simp]:
  "map id_cp (complete_checkpoint i cps) = map id_cp cps"
proof (cases "findIndex (\<lambda>c. id_cp c = i) cps")
  case None
  then show ?thesis by (simp add: complete_checkpoint_def)
next
  case (Some idx)
  then have "idx < length cps" by (simp add: findIndex_Some)
  with Some show ?thesis
    by (auto simp: complete_checkpoint_def Let_def nth_list_update intro!: nth_equalityI)
qed

lemma status_complete_checkpoint:
  assumes "findIndex (\<lambda>c. id_cp c = i) cps = Some idx"
  shows "map status (complete_checkpoint i cps) =
           (if idx + 1 < length cps
            then (map status cps)[idx := Completed, idx + 1 := Current]
            else (map status cps)[idx := Completed])"
  using assms by (simp add: complete_checkpoint_def Let_def map_update)

lemma length_progress [simp]: "length (progress k n) = n"
  by (simp add: progress_def)

lemma nth_progress:
  "j < n \<Longrightarrow> progress k n ! j = (if j < k then Completed else if j = k then Current else Pending)"
  by (simp add: progress_def)

lemma progress_step:
  assumes "k < n"
  shows "(if k + 1 < n then (progress k n)[k := Completed, k + 1 := Current]
          else (progress k n)[k := Completed]) = progress (Suc k) n"
proof (rule nth_equalityI)
  show "length (if k + 1 < n then (progress k n)[k := Completed, k + 1 := Current]
          else (progress k n)[k := Completed]) = length (progress (Suc k) n)"
    by simp
next
  fix j
  assume "j < length (if k + 1 < n then (progress k n)[k := Completed, k + 1 := Current]
          else (progress k n)[k := Completed])"
  then have j: "j < n" by (simp split: if_splits)
  with assms show "(if k + 1 < n then (progress k n)[k := Completed, k + 1 := Current]
          else (progress k n)[k := Completed]) ! j = progress (Suc k) n ! j"
    by (auto simp: nth_progress nth_list_update)
qed

lemma complete_unknown:
  assumes "i \<notin> id_cp ` set cps"
  shows "complete_checkpoint i cps = cps"
proof -
  from assms have "findIndex (\<lambda>c. id_cp c = i) cps = None"
    by (auto simp: findIndex_None)
  then show ?thesis by (simp add: complete_checkpoint_def)
qed

lemma complete_all_snoc:
  "complete_all (ids @ [i]) cps = complete_checkpoint i (complete_all ids cps)"
  by (simp add: complete_all_def)

lemma ids_complete_all [simp]: "map id_cp (complete_all ids cps) = map id_cp cps"
  by (induction ids rule: rev_induct) (simp_all add: complete_all_def)

lemma length_complete_all [simp]: "length (complete_all ids cps) = length cps"
  by (induction ids rule: rev_induct) (simp_all add: complete_all_def)

text \<open>
  Completing the checkpoint that is current moves the pattern one step on; in a list of
  pattern \<open>k\<close> the only current checkpoint is number \<open>k\<close>.
\<close>

lemma status_form_step:
  assumes form: "map status cps = progress k (length cps)"
    and idx: "findIndex (\<lambda>c. id_cp c = i) cps = Some idx"
    and cur: "status (cps ! idx) = Current"
  shows "idx = k \<and> k < length cps \<and>
         map status (complete_checkpoint i cps) = progress (Suc k) (length cps)"
proof -
  from idx have lt: "idx < length cps" by (simp add: findIndex_Some)
  then have "status (cps ! idx) = map status cps ! idx" by simp
  also have "\<dots> = progress k (length cps) ! idx" by (simp add: form)
  finally have "progress k (length cps) ! idx = Current" using cur by simp
  with lt have k: "idx = k" by (simp add: nth_progress split: if_splits)
  with lt have kl: "k < length cps" by simp
  from status_complete_checkpoint [OF idx] k form
  have "map status (complete_checkpoint i cps) =
          (if k + 1 < length cps then (progress k (length cps))[k := Completed, k + 1 := Current]
           else (progress k (length cps))[k := Completed])" by simp
  with progress_step [OF kl] show ?thesis using k kl by simp
qed

lemma filter_current_progress:
  "length (filter (\<lambda>s. s = Current) (progress k n)) = (if k < n then 1 else 0)"
proof -
  have "filter (\<lambda>s. s = Current) (progress k n) =
          map (\<lambda>_. Current) (filter (\<lambda>j. j = k) [0..<n])"
    unfolding progress_def filter_map by (induction n) auto
  moreover have "filter (\<lambda>j. j = k) [0..<n] = (if k < n then [k] else [])"
    by (induction n) auto
  ultimately show ?thesis by simp
qed

lemma count_current:
  "length (filter (\<lambda>c. status c = Current) cps) =
   length (filter (\<lambda>s. s = Current) (map status cps))"
  by (simp add: filter_map comp_def)

lemma invariant_of_progress:
  assumes "map status cps = progress k (length cps)"
  shows "checkpoint_invariant cps"
proof -
  have st: "status (cps ! j) = progress k (length cps) ! j" if "j < length cps" for j
    using that assms by (metis nth_map)
  show ?thesis
    unfolding checkpoint_invariant_def
    using assms
    by (auto simp: count_current filter_current_progress st nth_progress split: if_splits)
qed

lemma names_current_progress:
  assumes "names_current cps ids" and "map status cps = progress k (length cps)"
  shows "\<exists>k'. map status (complete_all ids cps) = progress k' (length cps)"
  using assms
proof (induction ids arbitrary: cps k)
  case Nil
  then show ?case by (auto simp: complete_all_def)
next
  case (Cons i ids)
  show ?case
  proof (cases "findIndex (\<lambda>c. id_cp c = i) cps")
    case None
    then have "complete_checkpoint i cps = cps" by (simp add: complete_checkpoint_def)
    with Cons show ?thesis by (auto simp: complete_all_def)
  next
    case (Some idx)
    with Cons.prems have "status (cps ! idx) = Current" by simp
    from status_form_step [OF Cons.prems(2) Some this]
    have "map status (complete_checkpoint i cps) =
            progress (Suc k) (length (complete_checkpoint i cps))"
      by simp
    from Cons.IH [OF _ this] Cons.prems(1) show ?thesis by (simp add: complete_all_def)
  qed
qed

lemma initial_checkpoints_initial: "initial_list INITIAL_CHECKPOINTS"
  by (simp add: initial_list_def INITIAL_CHECKPOINTS_def progress_def upt_rec)

lemma initial_checkpoints_distinct: "distinct (map id_cp INITIAL_CHECKPOINTS)"
  by (simp add: INITIAL_CHECKPOINTS_def)

lemma initial_checkpoints_length: "length INITIAL_CHECKPOINTS = 4"
  by (simp add: INITIAL_CHECKPOINTS_def)

lemma in_order_status:
  assumes init: "initial_list cps" and dist: "distinct (map id_cp cps)"
  shows "k \<le> length cps \<Longrightarrow>
         map status (complete_all (take k (map id_cp cps)) cps) = progress k (length cps)"
proof (induction k)
  case 0
  with init show ?case by (simp add: complete_all_def initial_list_def)
next
  case (Suc k)
  let ?s = "complete_all (take k (map id_cp cps)) cps"
  from Suc.prems have k: "k < length cps" by simp
  with Suc.IH have form: "map status ?s = progress k (length cps)" by simp
  have idk: "map id_cp cps ! k = id_cp (?s ! k)"
    using k by (metis ids_complete_all length_complete_all nth_map)
  have "distinct (map id_cp ?s)" using dist by simp
  from findIndex_distinct [OF this, of k] k
  have idx: "findIndex (\<lambda>c. id_cp c = map id_cp cps ! k) ?s = Some k"
    by (simp add: idk)
  have "take (Suc k) (map id_cp cps) = take k (map id_cp cps) @ [map id_cp cps ! k]"
    using k by (simp add: take_Suc_conv_app_nth)
  then have "complete_all (take (Suc k) (map id_cp cps)) cps
               = complete_checkpoint (map id_cp cps ! k) ?s"
    by (simp add: complete_all_snoc)
  moreover have "map status (complete_checkpoint (map id_cp cps ! k) ?s) =
                   progress (Suc k) (length cps)"
  proof -
    have "map status (complete_checkpoint (map id_cp cps ! k) ?s) =
            (if k + 1 < length ?s then (map status ?s)[k := Completed, k + 1 := Current]
             else (map status ?s)[k := Completed])"
      by (rule status_complete_checkpoint [OF idx])
    also have "\<dots> = (if k + 1 < length cps
                       then (progress k (length cps))[k := Completed, k + 1 := Current]
                       else (progress k (length cps))[k := Completed])"
      using form by (simp only: length_complete_all)
    also have "\<dots> = progress (Suc k) (length cps)"
      by (rule progress_step [OF k])
    finally show ?thesis .
  qed
  ultimately show ?case by simp
qed

lemma progress_full: "progress n n = replicate n Completed"
  by (rule nth_equalityI) (simp_all add: nth_progress)

section \<open>Claims about the checkpoint state machine\<close>

text \<open>
  Claim C1, as stated: from the initial checkpoint list, after every sequence of
  \<^verbatim>\<open>complete(id)\<close> calls at most one checkpoint is current, every checkpoint before
  the current one is completed and every one after it is pending. The handler does not
  look at the status of the checkpoint it completes, so one call that names a later
  checkpoint breaks this: after \<^verbatim>\<open>complete('ask_bill')\<close> the statuses are current,
  pending, completed, current.
\<close>

theorem invariant_any_sequence_counterexample:
  "map status (complete_all [''ask_bill''] INITIAL_CHECKPOINTS) =
     [Current, Pending, Completed, Current] \<and>
   \<not> checkpoint_invariant (complete_all [''ask_bill''] INITIAL_CHECKPOINTS)"
  by (simp add: checkpoint_invariant_def complete_all_def complete_checkpoint_def
      INITIAL_CHECKPOINTS_def)

text \<open>
  Claim C1, amended: from an initial checkpoint list (checkpoint 0 current, all others
  pending), after every sequence of \<^verbatim>\<open>complete(id)\<close> calls each of which names either
  no checkpoint of the list or the checkpoint that is current when the call is made, at
  most one checkpoint is current, every checkpoint before it is completed and every
  checkpoint after it is pending.
\<close>

theorem invariant_in_order:
  assumes "initial_list cps" and "names_current cps ids"
  shows "checkpoint_invariant (complete_all ids cps)"
proof -
  from assms(1) have "map status cps = progress 0 (length cps)"
    by (simp add: initial_list_def)
  from names_current_progress [OF assms(2) this]
  obtain k' where "map status (complete_all ids cps) = progress k' (length cps)"
    by blast
  then have "map status (complete_all ids cps) = progress k' (length (complete_all ids cps))"
    by simp
  then show ?thesis by (rule invariant_of_progress)
qed

theorem invariant_in_order_witness:
  "initial_list INITIAL_CHECKPOINTS \<and>
   names_current INITIAL_CHECKPOINTS [''greet'', ''nonexistent'', ''order_drink''] \<and>
   checkpoint_invariant
     (complete_all [''greet'', ''nonexistent'', ''order_drink''] INITIAL_CHECKPOINTS)"
proof -
  have h: "names_current INITIAL_CHECKPOINTS [''greet'', ''nonexistent'', ''order_drink'']"
    by (simp add: complete_checkpoint_def INITIAL_CHECKPOINTS_def)
  from invariant_in_order [OF initial_checkpoints_initial h] h initial_checkpoints_initial
  show ?thesis by simp
qed

text \<open>
  Claim C2: for every initial list of N checkpoints, the calls \<^verbatim>\<open>complete(id0)\<close>,
  ..., \<^verbatim>\<open>complete(idN-1)\<close>, made in ordinal order, leave exactly one current
  checkpoint after each call but the last, and after the last call no checkpoint is
  current and all N are completed. The ids name the checkpoints, so they are pairwise
  distinct, as those of \<^verbatim>\<open>INITIAL_CHECKPOINTS\<close> are. The state after the first \<open>k\<close>
  calls is that of \<open>complete_all\<close> on the first \<open>k\<close> ids; before the first call
  (\<open>k = 0\<close>) the one current checkpoint is checkpoint 0.
\<close>

theorem in_order_progression:
  assumes "initial_list cps" and "distinct (map id_cp cps)" and "k \<le> length cps"
  shows "(if k < length cps
          then length (filter (\<lambda>c. status c = Current)
                         (complete_all (take k (map id_cp cps)) cps)) = 1
          else filter (\<lambda>c. status c = Current)
                 (complete_all (take k (map id_cp cps)) cps) = [] \<and>
               list_all (\<lambda>c. status c = Completed)
                 (complete_all (take k (map id_cp cps)) cps))"
proof -
  let ?s = "complete_all (take k (map id_cp cps)) cps"
  have form: "map status ?s = progress k (length cps)"
    using assms by (rule in_order_status)
  show ?thesis
  proof (cases "k < length cps")
    case True
    then show ?thesis
      by (simp add: count_current form filter_current_progress)
  next
    case False
    with assms(3) have kn: "k = length cps" by simp
    have "length (filter (\<lambda>c. status c = Current) ?s) =
            length (filter (\<lambda>s. s = Current) (progress k (length cps)))"
      by (simp only: count_current form)
    also have "\<dots> = 0"
      using False by (simp only: filter_current_progress if_False)
    finally have "filter (\<lambda>c. status c = Current) ?s = []"
      by (simp only: length_0_conv)
    moreover have "list_all (\<lambda>c. status c = Completed) ?s"
    proof -
      have "map status ?s = replicate (length cps) Completed"
        using form kn progress_full by simp
      then have "\<forall>x \<in> set (map status ?s). x = Completed" by simp
      then show ?thesis by (simp add: list_all_iff)
    qed
    ultimately show ?thesis using False by simp
  qed
qed

theorem in_order_progression_witness:
  "initial_list INITIAL_CHECKPOINTS \<and> distinct (map id_cp INITIAL_CHECKPOINTS) \<and>
   length (filter (\<lambda>c. status c = Current)
             (complete_all [''greet'', ''order_drink''] INITIAL_CHECKPOINTS)) = 1 \<and>
   filter (\<lambda>c. status c = Current)
     (complete_all [''greet'', ''order_drink'', ''ask_bill'', ''farewell'']
        INITIAL_CHECKPOINTS) = [] \<and>
   list_all (\<lambda>c. status c = Completed)
     (complete_all [''greet'', ''order_drink'', ''ask_bill'', ''farewell'']
        INITIAL_CHECKPOINTS)"
proof -
  have t2: "take 2 (map id_cp INITIAL_CHECKPOINTS) = [''greet'', ''order_drink'']"
    by (simp add: INITIAL_CHECKPOINTS_def)
  have t4: "take 4 (map id_cp INITIAL_CHECKPOINTS) =
              [''greet'', ''order_drink'', ''ask_bill'', ''farewell'']"
    by (simp add: INITIAL_CHECKPOINTS_def)
  from in_order_progression
         [OF initial_checkpoints_initial initial_checkpoints_distinct, of 2]
  have a: "length (filter (\<lambda>c. status c = Current)
             (complete_all [''greet'', ''order_drink''] INITIAL_CHECKPOINTS)) = 1"
    by (simp add: t2 initial_checkpoints_length)
  from in_order_progression
         [OF initial_checkpoints_initial initial_checkpoints_distinct, of 4]
  have b: "filter (\<lambda>c. status c = Current)
     (complete_all [''greet'', ''order_drink'', ''ask_bill'', ''farewell'']
        INITIAL_CHECKPOINTS) = [] \<and>
   list_all (\<lambda>c. status c = Completed)
     (complete_all [''greet'', ''order_drink'', ''ask_bill'', ''farewell'']
        INITIAL_CHECKPOINTS)"
    by (simp add: t4 initial_checkpoints_length)
  from a b initial_checkpoints_initial initial_checkpoints_distinct show ?thesis by simp
qed

text \<open>
  Claim C7: for every checkpoint state and every id that no checkpoint of the list
  carries, \<^verbatim>\<open>complete(id)\<close> leaves the checkpoint array as it was, and no error is
  surfaced: the handler returns, the array of the new state is the array of the old
  one, and the error field is untouched.
\<close>

theorem unknown_id_noop:
  assumes "i \<notin> id_cp ` set (checkpoints app)"
  shows "complete_checkpoint i (checkpoints app) = checkpoints app \<and>
         checkpoints (handleCheckpointComplete i app) = checkpoints app \<and>
         error (handleCheckpointComplete i app) = error app"
  using complete_unknown [OF assms] by (simp add: handleCheckpointComplete_def Let_def)

theorem unknown_id_noop_witness:
  "''nonexistent'' \<notin> id_cp ` set INITIAL_CHECKPOINTS \<and>
   complete_checkpoint ''nonexistent'' INITIAL_CHECKPOINTS = INITIAL_CHECKPOINTS \<and>
   checkpoints (handleCheckpointComplete ''nonexistent''
      \<lparr>orbState = IDLE, checkpoints = INITIAL_CHECKPOINTS, error = None, timeouts = []\<rparr>)
     = INITIAL_CHECKPOINTS \<and>
   error (handleCheckpointComplete ''nonexistent''
      \<lparr>orbState = IDLE, checkpoints = INITIAL_CHECKPOINTS, error = None, timeouts = []\<rparr>)
     = None"
proof -
  have h: "''nonexistent'' \<notin> id_cp ` set INITIAL_CHECKPOINTS"
    by (simp add: INITIAL_CHECKPOINTS_def)
  from unknown_id_noop
         [of "''nonexistent''"
             "\<lparr>orbState = IDLE, checkpoints = INITIAL_CHECKPOINTS, error = None, timeouts = []\<rparr>"]
       h
  show ?thesis by simp
qed

text \<open>
  Claim C10: when the completion handler is called with an id that no checkpoint of the
  list carries, the checkpoint array is left as it was, but the orb state is set to
  \<open>CELEBRATING\<close> all the same and a timeout of 2500 milliseconds is registered that sets
  it back to \<open>IDLE\<close>: the celebration comes before the id is looked up, so the call
  is not a no-op on the state of the component.
\<close>

theorem unknown_id_celebrates:
  assumes "i \<notin> id_cp ` set (checkpoints app)"
  shows "checkpoints (handleCheckpointComplete i app) = checkpoints app \<and>
         orbState (handleCheckpointComplete i app) = CELEBRATING \<and>
         timeouts (handleCheckpointComplete i app) = timeouts app @ [(2500, IDLE)] \<and>
         orbState (fire_timeout (2500, IDLE) (handleCheckpointComplete i app)) = IDLE \<and>
         handleCheckpointComplete i app \<noteq> app"
proof -
  have "timeouts (handleCheckpointComplete i app) = timeouts app @ [(2500, IDLE)]"
    by (simp add: handleCheckpointComplete_def Let_def)
  moreover from this have "handleCheckpointComplete i app \<noteq> app"
    by (metis append_Nil2 list.distinct(1) same_append_eq)
  ultimately show ?thesis
    using complete_unknown [OF assms]
    by (simp add: handleCheckpointComplete_def Let_def fire_timeout_def)
qed

theorem unknown_id_celebrates_witness:
  "''nonexistent'' \<notin> id_cp ` set INITIAL_CHECKPOINTS \<and>
   handleCheckpointComplete ''nonexistent''
      \<lparr>orbState = IDLE, checkpoints = INITIAL_CHECKPOINTS, error = None, timeouts = []\<rparr>
     \<noteq> \<lparr>orbState = IDLE, checkpoints = INITIAL_CHECKPOINTS, error = None, timeouts = []\<rparr> \<and>
   orbState (handleCheckpointComplete ''nonexistent''
      \<lparr>orbState = IDLE, checkpoints = INITIAL_CHECKPOINTS, error = None, timeouts = []\<rparr>)
     = CELEBRATING"
proof -
  have h: "''nonexistent'' \<notin> id_cp ` set INITIAL_CHECKPOINTS"
    by (simp add: INITIAL_CHECKPOINTS_def)
  from unknown_id_celebrates
         [of "''nonexistent''"
             "\<lparr>orbState = IDLE, checkpoints = INITIAL_CHECKPOINTS, error = None, timeouts = []\<rparr>"]
       h
  show ?thesis by simp
qed

section \<open>Claims about the playback scheduler\<close>

lemma handleAudio_Buffer:
  "handleAudio t (Buffer d) s =
     s\<lparr>stateChanges := stateChanges s @ [True],
       nextStartTime := max (nextStartTime s) t + d,
       created := Suc (created s),
       starts := starts s @ [(created s, max (nextStartTime s) t)],
       sources := insert (created s) (sources s)\<rparr>"
  by (simp add: handleAudio_def Let_def)

lemma starts_play:
  "map snd (starts (play bufs s)) = map snd (starts s) @ schedule (nextStartTime s) bufs"
proof (induction bufs arbitrary: s)
  case Nil
  then show ?case by (simp add: play_def)
next
  case (Cons b bufs)
  obtain t d where b: "b = (t, d)" by (cases b)
  have "play (b # bufs) s = play bufs (handleAudio t (Buffer d) s)"
    by (simp add: play_def b)
  then show ?case
    by (simp add: Cons.IH b handleAudio_Buffer)
qed

lemma length_schedule [simp]: "length (schedule nst bufs) = length bufs"
  by (induction nst bufs rule: schedule.induct) simp_all

lemma schedule_clock:
  "i < length bufs \<Longrightarrow> fst (bufs ! i) \<le> schedule nst bufs ! i"
proof (induction nst bufs arbitrary: i rule: schedule.induct)
  case (1 nst)
  then show ?case by simp
next
  case (2 nst t d bufs)
  then show ?case by (cases i) simp_all
qed

lemma schedule_gap:
  "Suc i < length bufs \<Longrightarrow>
   schedule nst bufs ! i + snd (bufs ! i) \<le> schedule nst bufs ! Suc i"
proof (induction nst bufs arbitrary: i rule: schedule.induct)
  case (1 nst)
  then show ?case by simp
next
  case (2 nst t d bufs)
  show ?case
  proof (cases i)
    case 0
    with "2.prems" obtain t' d' rest where "bufs = (t', d') # rest"
      by (cases bufs) auto
    with 0 show ?thesis by simp
  next
    case (Suc j)
    with "2.prems" "2.IH" [of j] show ?thesis by simp
  qed
qed

lemma start_times_play: "start_times s (play bufs s) = schedule (nextStartTime s) bufs"
proof -
  have "map snd (drop (length (starts s)) (starts (play bufs s))) =
        drop (length (map snd (starts s))) (map snd (starts (play bufs s)))"
    by (simp add: drop_map)
  also have "\<dots> = schedule (nextStartTime s) bufs"
    by (simp only: starts_play append_eq_conv_conj drop_append) simp
  finally show ?thesis by (simp add: start_times_def)
qed

text \<open>
  Claim C3: for every sequence of decoded playback buffers with durations \<open>d\<close>,
  arriving at arbitrary clock times, and from every state of the scheduler, the start
  times that the scheduler assigns (the start is the maximum of the cursor and the
  output clock, the cursor then the start plus the duration) satisfy
  \<open>start[i+1] \<ge> start[i] + d[i]\<close> for all \<open>i\<close>, and \<open>start[i]\<close> is at least the output
  clock at the arrival of buffer \<open>i\<close>, so in particular \<open>start[0]\<close> is at least the clock
  at the first arrival. One start time is assigned to each buffer.
\<close>

theorem playback_no_overlap:
  "length (start_times s (play bufs s)) = length bufs \<and>
   (\<forall>i < length bufs. fst (bufs ! i) \<le> start_times s (play bufs s) ! i) \<and>
   (\<forall>i. Suc i < length bufs \<longrightarrow>
      start_times s (play bufs s) ! i + snd (bufs ! i)
        \<le> start_times s (play bufs s) ! Suc i)"
  by (simp add: start_times_play schedule_clock schedule_gap)

text \<open>
  The scenario of the specification: a chunk of 0.5 s at clock 0 and a chunk of 0.3 s at
  clock 0.1 start at 0 and at 0.5, and leave the cursor at 0.8.
\<close>

theorem playback_no_overlap_witness:
  "start_times new_playback (play scenario_buffers new_playback) = [0, 0.5] \<and>
   nextStartTime (play scenario_buffers new_playback) = 0.8 \<and>
   1 < length scenario_buffers \<and>
   fst (scenario_buffers ! 1)
     \<le> start_times new_playback (play scenario_buffers new_playback) ! 1 \<and>
   start_times new_playback (play scenario_buffers new_playback) ! 0
       + snd (scenario_buffers ! 0)
     \<le> start_times new_playback (play scenario_buffers new_playback) ! Suc 0"
proof -
  have st: "start_times new_playback (play scenario_buffers new_playback) = [0, 0.5]"
    by (simp add: start_times_def play_def handleAudio_Buffer new_playback_def
        scenario_buffers_def)
  have nst: "nextStartTime (play scenario_buffers new_playback) = 0.8"
    by (simp add: play_def handleAudio_Buffer new_playback_def scenario_buffers_def)
  have l1: "1 < length scenario_buffers" and l2: "Suc 0 < length scenario_buffers"
    by (simp_all add: scenario_buffers_def)
  note t = playback_no_overlap [of new_playback scenario_buffers]
  from t have "\<forall>i < length scenario_buffers. fst (scenario_buffers ! i)
          \<le> start_times new_playback (play scenario_buffers new_playback) ! i"
    by (rule conjunct1 [OF conjunct2])
  with l1 have a: "fst (scenario_buffers ! 1)
          \<le> start_times new_playback (play scenario_buffers new_playback) ! 1"
    by simp
  from t have "\<forall>i. Suc i < length scenario_buffers \<longrightarrow>
      start_times new_playback (play scenario_buffers new_playback) ! i
          + snd (scenario_buffers ! i)
        \<le> start_times new_playback (play scenario_buffers new_playback) ! Suc i"
    by (rule conjunct2 [OF conjunct2])
  with l2 have b: "start_times new_playback (play scenario_buffers new_playback) ! 0
            + snd (scenario_buffers ! 0)
          \<le> start_times new_playback (play scenario_buffers new_playback) ! Suc 0"
    by simp
  from st nst l1 a b show ?thesis by (intro conjI)
qed

text \<open>
  Claim C5, as stated: the playback-active signal is emitted exactly when the set of
  active buffers goes from empty to non-empty, the playback-idle signal exactly when it
  goes from non-empty to empty, and no signal is emitted while the count stays on the
  same side of zero. The handler calls \<^verbatim>\<open>onStateChange(true)\<close> for every audio chunk,
  before it looks at the set: a second chunk that arrives while the first is still
  active emits the active signal again, with the set non-empty before and after.
\<close>

theorem active_signal_counterexample:
  "sources (handleAudio 0 (Buffer 1) new_playback) \<noteq> {} \<and>
   sources (handleAudio 0 (Buffer 1) (handleAudio 0 (Buffer 1) new_playback)) \<noteq> {} \<and>
   emitted (handleAudio 0 (Buffer 1) new_playback)
     (handleAudio 0 (Buffer 1) (handleAudio 0 (Buffer 1) new_playback)) = [True]"
  by (simp add: emitted_def handleAudio_Buffer new_playback_def)

text \<open>
  Claim C5, amended: the playback-active signal is emitted once for every inbound audio
  chunk, whether or not the set of active buffers was empty, and a chunk that decodes
  adds its buffer to the set. The end of an active buffer removes that buffer, and only
  it, from the set; the playback-idle signal is emitted exactly when this leaves the set
  empty, and the end of a buffer emits nothing while other buffers remain active. The
  signals depend on the arrival of chunks and on the set alone, not on the audio.
\<close>

theorem playback_signals:
  "stateChanges (handleAudio t a s) = stateChanges s @ [True] \<and>
   emitted s (handleAudio t a s) = [True] \<and>
   sources (handleAudio t (Buffer d) s) = insert (created s) (sources s) \<and>
   (src \<in> sources s \<longrightarrow>
      sources (onEnded src s) = sources s - {src} \<and>
      stateChanges (onEnded src s) =
        stateChanges s @ (if sources s - {src} = {} then [False] else []) \<and>
      emitted s (onEnded src s) = (if sources s - {src} = {} then [False] else []))"
  by (cases a) (auto simp: emitted_def handleAudio_def onEnded_def Let_def)

text \<open>
  With two buffers active the end of the first leaves the second in the set and emits
  nothing; with one buffer active its end empties the set and emits the idle signal.
\<close>

theorem playback_signals_witness:
  "sources two_playing = {0, 1} \<and>
   sources (onEnded 0 two_playing) = {1} \<and>
   emitted two_playing (onEnded 0 two_playing) = [] \<and>
   sources one_playing = {0} \<and>
   sources (onEnded 0 one_playing) = {} \<and>
   emitted one_playing (onEnded 0 one_playing) = [False]"
proof -
  have s1: "sources one_playing = {0}"
    by (simp add: one_playing_def handleAudio_Buffer new_playback_def)
  have s2: "sources two_playing = {0, 1}"
    by (auto simp: two_playing_def one_playing_def handleAudio_Buffer new_playback_def)
  have d2: "sources two_playing - {0} = {1}" and n2: "sources two_playing - {0} \<noteq> {}"
    by (auto simp: s2)
  have d1: "sources one_playing - {0} = {}"
    by (simp add: s1)
  have m1: "0 \<in> sources one_playing" and m2: "0 \<in> sources two_playing"
    by (simp_all add: s1 s2)
  from playback_signals [of 0 "Buffer 1" two_playing 1 0] m2
  have a: "sources (onEnded 0 two_playing) = sources two_playing - {0}"
    and b: "emitted two_playing (onEnded 0 two_playing) =
              (if sources two_playing - {0} = {} then [False] else [])"
    by blast+
  from playback_signals [of 0 "Buffer 1" one_playing 1 0] m1
  have c: "sources (onEnded 0 one_playing) = sources one_playing - {0}"
    and e: "emitted one_playing (onEnded 0 one_playing) =
              (if sources one_playing - {0} = {} then [False] else [])"
    by blast+
  from a b c e s1 s2 d1 d2 n2 show ?thesis by simp
qed

section \<open>Claims about tool calls\<close>

lemma handleToolCalls_responses:
  assumes "\<forall>fc \<in> set fcs. name_fc fc = ''markCheckpointComplete'' \<longrightarrow> args_fc fc \<noteq> None"
  shows "fst (handleToolCalls True fcs eff) = None \<and>
         responses (snd (handleToolCalls True fcs eff)) =
           responses eff @
           map response_to (filter (\<lambda>fc. name_fc fc = ''markCheckpointComplete'') fcs)"
  using assms
proof (induction fcs arbitrary: eff)
  case Nil
  then show ?case by simp
next
  case (Cons fc fcs)
  then show ?case by (auto simp: response_to_def)
qed

text \<open>
  A message whose handling reaches its tool calls leaves the handler with the result of
  the loop over them.
\<close>

lemma handleMessage_reaches:
  assumes "reaches_tool_calls message sv" and "toolCall message = Some fcs"
  shows "fst (handleMessage session t message sv) =
           fst (handleToolCalls session fcs (tool sv)) \<and>
         tool (snd (handleMessage session t message sv)) =
           snd (handleToolCalls session fcs (tool sv))"
  using assms
  by (auto simp: handleMessage_def reaches_tool_calls_def Let_def case_prod_unfold
      split: option.splits)

text \<open>
  Claim C6, as stated: every inbound tool invocation is answered by exactly one outbound
  tool response carrying its id and name, whatever its name and arguments. The loop
  answers only the invocations named \<^verbatim>\<open>markCheckpointComplete\<close>: a message whose one
  invocation has another name is handled without error and without a response.
\<close>

theorem tool_response_counterexample:
  "fst (handleMessage True 0 (tool_message [other_call]) new_service) = None \<and>
   responses (tool (snd (handleMessage True 0 (tool_message [other_call]) new_service))) = []"
  by (simp add: handleMessage_def tool_message_def other_call_def new_service_def
      no_effects_def)

text \<open>
  Claim C6, amended: while the session promise is fulfilled, for every inbound message
  whose handling reaches its tool calls (the message carries no audio chunk, or the
  output context is not set, or the chunk decodes) and in which every invocation named
  \<^verbatim>\<open>markCheckpointComplete\<close> carries an arguments object: every invocation named
  \<^verbatim>\<open>markCheckpointComplete\<close> is answered by exactly one outbound tool response carrying
  that invocation's id and name, in the order of the invocations and whatever its
  arguments, and an invocation with any other name is not answered.
\<close>

theorem tool_response_per_invocation:
  assumes "toolCall message = Some fcs"
    and "reaches_tool_calls message sv"
    and "\<forall>fc \<in> set fcs. name_fc fc = ''markCheckpointComplete'' \<longrightarrow> args_fc fc \<noteq> None"
  shows "fst (handleMessage True t message sv) = None \<and>
         responses (tool (snd (handleMessage True t message sv))) =
           responses (tool sv) @
           map response_to (filter (\<lambda>fc. name_fc fc = ''markCheckpointComplete'') fcs)"
  using handleMessage_reaches [OF assms(2) assms(1), of True t]
        handleToolCalls_responses [OF assms(3), of "tool sv"]
  by simp

text \<open>
  A message with a chunk that decodes, both transcriptions, a call of the declared tool
  and a call of another name: the one response answers the first call.
\<close>

theorem tool_response_per_invocation_witness:
  "toolCall (full_message [checkpoint_call, other_call]) = Some [checkpoint_call, other_call] \<and>
   reaches_tool_calls (full_message [checkpoint_call, other_call]) new_service \<and>
   args_fc checkpoint_call \<noteq> None \<and>
   name_fc other_call \<noteq> ''markCheckpointComplete'' \<and>
   fst (handleMessage True 0 (full_message [checkpoint_call, other_call]) new_service) = None \<and>
   responses (tool (snd (handleMessage True 0 (full_message [checkpoint_call, other_call])
                           new_service))) =
     [\<lparr>id_resp = ''call-1'', name_resp = ''markCheckpointComplete'',
       result_resp = ''Checkpoint marked.''\<rparr>]"
proof -
  have h1: "toolCall (full_message [checkpoint_call, other_call]) =
              Some [checkpoint_call, other_call]"
    by (simp add: full_message_def)
  have h2: "reaches_tool_calls (full_message [checkpoint_call, other_call]) new_service"
    by (simp add: reaches_tool_calls_def full_message_def audio_throws_def)
  have h3: "\<forall>fc \<in> set [checkpoint_call, other_call].
              name_fc fc = ''markCheckpointComplete'' \<longrightarrow> args_fc fc \<noteq> None"
    by (simp add: checkpoint_call_def other_call_def)
  have h4: "args_fc checkpoint_call \<noteq> None"
    and h5: "name_fc other_call \<noteq> ''markCheckpointComplete''"
    by (simp_all add: checkpoint_call_def other_call_def)
  have r: "responses (tool new_service) @
           map response_to
             (filter (\<lambda>fc. name_fc fc = ''markCheckpointComplete'')
                [checkpoint_call, other_call]) =
           [\<lparr>id_resp = ''call-1'', name_resp = ''markCheckpointComplete'',
             result_resp = ''Checkpoint marked.''\<rparr>]"
    by (simp add: new_service_def no_effects_def response_to_def checkpoint_call_def
        other_call_def)
  from tool_response_per_invocation [OF h1 h2 h3, of 0] r h1 h2 h4 h5
  show ?thesis by simp
qed

section \<open>Claims about the release of resources\<close>

text \<open>
  The loop over the tracks stops at the first track whose \<^verbatim>\<open>stop\<close> fails: the tracks
  before it are stopped, it and the tracks after it are as they were.
\<close>

lemma stop_tracks_closed:
  "stop_tracks fails n ts =
     (if length (takeWhile (\<lambda>j. \<not> fails (TrackStop j)) [n..<n + length ts]) < length ts
      then Some InvalidStateError else None,
      map (\<lambda>t. False)
        (take (length (takeWhile (\<lambda>j. \<not> fails (TrackStop j)) [n..<n + length ts])) ts) @
      drop (length (takeWhile (\<lambda>j. \<not> fails (TrackStop j)) [n..<n + length ts])) ts)"
proof (induction ts arbitrary: n)
  case Nil
  show ?case by simp
next
  case (Cons t ts)
  have u: "[n..<n + length (t # ts)] = n # [Suc n..<Suc n + length ts]"
    by (subst upt_rec) simp
  show ?case
  proof (cases "fails (TrackStop n)")
    case True
    then show ?thesis unfolding u by simp
  next
    case False
    then show ?thesis by (simp only: u stop_tracks.simps Cons.IH) simp
  qed
qed

lemma stopped_le: "stopped_before_failure fails s \<le> length (tracks s)"
  unfolding stopped_before_failure_def
  by (metis length_takeWhile_le length_upt minus_nat.diff_0)

lemma release_stream_closed:
  "release_stream fails s =
     (if stopped_before_failure fails s < length (tracks s) then Some InvalidStateError else None,
      tracks_stopped (stopped_before_failure fails s) s)"
  by (cases "stream s")
     (simp_all add: release_stream_def stop_tracks_closed tracks_def
        stopped_before_failure_def tracks_stopped_def)

lemma tracks_processor_released [simp]:
  "tracks (processor_released s) = tracks s"
  "stopped_before_failure fails (processor_released s) = stopped_before_failure fails s"
  by (simp_all add: tracks_def stopped_before_failure_def processor_released_def)

lemma release_processor_closed:
  "release_processor fails s =
     (if processor_fails fails s then (Some InvalidStateError, s)
      else (None, processor_released s))"
  by (cases "processor s")
     (simp_all add: release_processor_def processor_fails_def processor_released_def)

lemma close_input_closed:
  "close_input fails s =
     (if input_fails fails s then (Some InvalidStateError, s) else (None, input_closed s))"
  by (cases "inputAudioContext s")
     (simp_all add: close_input_def input_fails_def input_closed_def)

lemma close_output_closed:
  "close_output fails s =
     (if output_fails fails s then (Some InvalidStateError, s) else (None, output_closed s))"
  by (cases "outputAudioContext s")
     (simp_all add: close_output_def output_fails_def output_closed_def)

lemma fails_frame [simp]:
  "input_fails fails (tracks_stopped k s) = input_fails fails s"
  "input_fails fails (processor_released s) = input_fails fails s"
  "output_fails fails (tracks_stopped k s) = output_fails fails s"
  "output_fails fails (processor_released s) = output_fails fails s"
  "output_fails fails (input_closed s) = output_fails fails s"
  by (simp_all add: input_fails_def output_fails_def tracks_stopped_def processor_released_def
      input_closed_def)

text \<open>The call is decided by the first release, in the order of the source, that fails.\<close>

lemma disconnect_closed:
  "disconnect fails s =
     (if processor_fails fails s then (Some InvalidStateError, s)
      else if stopped_before_failure fails s < length (tracks s)
           then (Some InvalidStateError,
                 tracks_stopped (stopped_before_failure fails s) (processor_released s))
      else if input_fails fails s
           then (Some InvalidStateError,
                 tracks_stopped (length (tracks s)) (processor_released s))
      else if output_fails fails s
           then (Some InvalidStateError,
                 input_closed (tracks_stopped (length (tracks s)) (processor_released s)))
      else (None,
            output_closed
              (input_closed (tracks_stopped (length (tracks s)) (processor_released s)))))"
proof -
  have k: "\<not> stopped_before_failure fails s < length (tracks s) \<Longrightarrow>
           stopped_before_failure fails s = length (tracks s)"
    using stopped_le [of fails s] by simp
  show ?thesis
    by (simp add: disconnect_def and_then_def release_processor_closed release_stream_closed
        close_input_closed close_output_closed k)
qed

lemma released_is_released:
  "all_released
     (output_closed (input_closed (tracks_stopped (length (tracks s)) (processor_released s))))"
  by (auto simp: all_released_def output_closed_def input_closed_def tracks_stopped_def
      processor_released_def tracks_def list_all_iff split: option.splits)

lemma released_fixed:
  assumes "all_released s"
  shows "processor_released s = s" and "tracks_stopped k s = s"
    and "input_closed s = s" and "output_closed s = s"
proof -
  show "processor_released s = s"
    using assms by (cases "processor s") (simp_all add: all_released_def processor_released_def)
  have "map (\<lambda>t. False) (take k ts) @ drop k ts = ts" if "list_all (\<lambda>t. \<not> t) ts" for ts
  proof -
    from that have "\<forall>t \<in> set (take k ts). \<not> t"
      by (auto simp: list_all_iff dest: in_set_takeD)
    then have "map (\<lambda>t. False) (take k ts) = map (\<lambda>t. t) (take k ts)"
      by (intro map_cong) auto
    then have "map (\<lambda>t. False) (take k ts) = take k ts"
      by simp
    then show ?thesis by simp
  qed
  then show "tracks_stopped k s = s"
    using assms by (cases "stream s") (simp_all add: all_released_def tracks_stopped_def)
  show "input_closed s = s"
    using assms by (cases "inputAudioContext s") (simp_all add: all_released_def input_closed_def)
  show "output_closed s = s"
    using assms by (cases "outputAudioContext s") (simp_all add: all_released_def output_closed_def)
qed

text \<open>
  Claim C8, as stated: \<^verbatim>\<open>disconnect()\<close> is unconditional and idempotent, a no-op on a
  session that is already disconnected, and a failure while releasing one resource does
  not prevent the release of the others. The method has no \<^verbatim>\<open>try\<close>: when closing the
  input context fails, the call ends with that error and the output context stays
  running.
\<close>

theorem disconnect_failure_counterexample:
  "disconnect (\<lambda>r. r = InputClose) connected_resources =
     (Some InvalidStateError,
      \<lparr>processor = Some \<lparr>connected = False, onaudioprocess = False\<rparr>,
       stream = Some [False],
       inputAudioContext = Some Running,
       outputAudioContext = Some Running\<rparr>)"
  by (simp add: disconnect_def and_then_def release_processor_def release_stream_def
      close_input_def close_output_def connected_resources_def)

text \<open>
  Claim C8, amended: \<^verbatim>\<open>disconnect()\<close> releases the capture processor, the tracks of
  the mic stream one after the other, the input audio context and the output audio
  context, in this order and each only when it was acquired. The first release that
  fails ends the call with that error: what comes before it is released, it and what
  comes after it are left as they were. When no release of an acquired resource fails,
  the call ends without error and every acquired resource is released. The handles are
  not cleared, so a call on a service whose resources are all released calls every
  release again: whatever fails in it, it changes no resource. On a service that has
  acquired nothing the call is a no-op.
\<close>

theorem disconnect_releases:
  "(processor_fails fails s \<longrightarrow> disconnect fails s = (Some InvalidStateError, s)) \<and>
   (\<not> processor_fails fails s \<and> stopped_before_failure fails s < length (tracks s) \<longrightarrow>
      disconnect fails s =
        (Some InvalidStateError,
         tracks_stopped (stopped_before_failure fails s) (processor_released s))) \<and>
   (\<not> processor_fails fails s \<and> stopped_before_failure fails s = length (tracks s) \<and>
    input_fails fails s \<longrightarrow>
      disconnect fails s =
        (Some InvalidStateError, tracks_stopped (length (tracks s)) (processor_released s))) \<and>
   (\<not> processor_fails fails s \<and> stopped_before_failure fails s = length (tracks s) \<and>
    \<not> input_fails fails s \<and> output_fails fails s \<longrightarrow>
      disconnect fails s =
        (Some InvalidStateError,
         input_closed (tracks_stopped (length (tracks s)) (processor_released s)))) \<and>
   (\<not> processor_fails fails s \<and> stopped_before_failure fails s = length (tracks s) \<and>
    \<not> input_fails fails s \<and> \<not> output_fails fails s \<longrightarrow>
      disconnect fails s =
        (None,
         output_closed
           (input_closed (tracks_stopped (length (tracks s)) (processor_released s)))) \<and>
      all_released (snd (disconnect fails s))) \<and>
   (all_released s \<longrightarrow> snd (disconnect fails s) = s) \<and>
   disconnect fails null_resources = (None, null_resources)"
proof (intro conjI impI)
  assume "all_released s"
  then show "snd (disconnect fails s) = s"
    by (simp add: disconnect_closed released_fixed)
next
  show "disconnect fails null_resources = (None, null_resources)"
    by (simp add: disconnect_def and_then_def release_processor_def release_stream_def
        close_input_def close_output_def null_resources_def)
qed (simp_all add: disconnect_closed released_is_released)

text \<open>
  On a connected service: a failing disconnect of the processor releases nothing; a
  failing close of the output context leaves it running with everything before it
  released; without a failure everything is released; and a second call in which both
  closes fail, as they do on closed contexts, ends with the error and changes nothing.
\<close>

theorem disconnect_releases_witness:
  "disconnect (\<lambda>r. r = ProcessorDisconnect) connected_resources =
     (Some InvalidStateError, connected_resources) \<and>
   disconnect (\<lambda>r. r = OutputClose) connected_resources =
     (Some InvalidStateError, released_resources\<lparr>outputAudioContext := Some Running\<rparr>) \<and>
   disconnect (\<lambda>r. False) connected_resources = (None, released_resources) \<and>
   all_released released_resources \<and>
   disconnect (\<lambda>r. r = InputClose \<or> r = OutputClose) released_resources =
     (Some InvalidStateError, released_resources)"
proof -
  have n: "length (tracks connected_resources) = Suc 0" "length (tracks released_resources) = Suc 0"
    by (simp_all add: tracks_def connected_resources_def released_resources_def)
  have k: "stopped_before_failure (\<lambda>r. r = OutputClose) connected_resources = Suc 0"
    "stopped_before_failure (\<lambda>r. False) connected_resources = Suc 0"
    "stopped_before_failure (\<lambda>r. r = InputClose \<or> r = OutputClose) released_resources = Suc 0"
    by (simp_all add: stopped_before_failure_def n)
  have p: "processor_fails (\<lambda>r. r = ProcessorDisconnect) connected_resources"
    "\<not> processor_fails (\<lambda>r. r = OutputClose) connected_resources"
    "\<not> processor_fails (\<lambda>r. False) connected_resources"
    "\<not> processor_fails (\<lambda>r. r = InputClose \<or> r = OutputClose) released_resources"
    by (simp_all add: processor_fails_def connected_resources_def)
  have i: "\<not> input_fails (\<lambda>r. r = OutputClose) connected_resources"
    "\<not> input_fails (\<lambda>r. False) connected_resources"
    "input_fails (\<lambda>r. r = InputClose \<or> r = OutputClose) released_resources"
    by (simp_all add: input_fails_def released_resources_def)
  have out: "output_fails (\<lambda>r. r = OutputClose) connected_resources"
    "\<not> output_fails (\<lambda>r. False) connected_resources"
    by (simp_all add: output_fails_def connected_resources_def)
  have r: "all_released released_resources"
    by (simp add: all_released_def released_resources_def)
  have e1: "input_closed (tracks_stopped (Suc 0) (processor_released connected_resources)) =
              released_resources\<lparr>outputAudioContext := Some Running\<rparr>"
    by (simp add: input_closed_def tracks_stopped_def processor_released_def
        connected_resources_def released_resources_def)
  have e2: "output_closed (input_closed (tracks_stopped (Suc 0)
              (processor_released connected_resources))) = released_resources"
    by (simp add: output_closed_def input_closed_def tracks_stopped_def processor_released_def
        connected_resources_def released_resources_def)
  have e3: "tracks_stopped (Suc 0) (processor_released released_resources) = released_resources"
    by (simp add: tracks_stopped_def processor_released_def released_resources_def)
  from disconnect_releases [of "\<lambda>r. r = ProcessorDisconnect" connected_resources] p(1)
  have a: "disconnect (\<lambda>r. r = ProcessorDisconnect) connected_resources =
             (Some InvalidStateError, connected_resources)"
    by blast
  from disconnect_releases [of "\<lambda>r. r = OutputClose" connected_resources] p(2) k(1) i(1) out(1)
  have b: "disconnect (\<lambda>r. r = OutputClose) connected_resources =
             (Some InvalidStateError, released_resources\<lparr>outputAudioContext := Some Running\<rparr>)"
    by (simp add: n e1)
  from disconnect_releases [of "\<lambda>r. False" connected_resources] p(3) k(2) i(2) out(2)
  have c: "disconnect (\<lambda>r. False) connected_resources = (None, released_resources)"
    by (simp add: n e2)
  from disconnect_releases [of "\<lambda>r. r = InputClose \<or> r = OutputClose" released_resources]
       p(4) k(3) i(3)
  have d: "disconnect (\<lambda>r. r = InputClose \<or> r = OutputClose) released_resources =
             (Some InvalidStateError, released_resources)"
    by (simp add: n e3)
  from a b c r d show ?thesis by (intro conjI)
qed

section \<open>Claims about the volume meter\<close>

lemma sum_loop_acc:
  "foldl (\<lambda>sum x. sum + x * x) (a::real) xs = a + (\<Sum>x\<leftarrow>xs. x\<^sup>2)"
proof (induction xs arbitrary: a)
  case Nil
  show ?case by simp
next
  case (Cons x xs)
  have "foldl (\<lambda>sum x. sum + x * x) a (x # xs) = foldl (\<lambda>sum x. sum + x * x) (a + x * x) xs"
    by simp
  also have "\<dots> = (a + x * x) + (\<Sum>x\<leftarrow>xs. x\<^sup>2)"
    by (rule Cons.IH)
  also have "\<dots> = a + (\<Sum>x\<leftarrow>x # xs. x\<^sup>2)"
    by (simp add: power2_eq_square)
  finally show ?case .
qed

lemma sum_loop_eq: "sum_loop xs = (\<Sum>x\<leftarrow>xs. x\<^sup>2)"
  by (simp add: sum_loop_def sum_loop_acc)

lemma sum_squares_nonneg: "0 \<le> (\<Sum>x\<leftarrow>xs. (x::real)\<^sup>2)"
  by (induction xs) simp_all

lemma rms_scenario: "rms_spec [0.3, - 0.3, 0.3, - 0.3] = 0.3"
proof -
  have "rms_spec [0.3, - 0.3, 0.3, - 0.3] = sqrt ((0.3::real)\<^sup>2)"
    by (simp add: rms_spec_def power2_eq_square)
  also have "\<dots> = 0.3" by simp
  finally show ?thesis .
qed

text \<open>
  Claim C9: for every captured audio frame the emitted volume is 5 times the root mean
  square of the samples; it is never negative, and for a frame whose root mean square is
  0.3 it is 1.5. A captured frame has at least one sample (the processor delivers
  blocks of 4096); the samples need not lie in \<open>[-1, 1]\<close> for this.
\<close>

theorem volume_is_scaled_rms:
  assumes "inputData \<noteq> []"
  shows "volume inputData = Some (5 * rms_spec inputData) \<and>
         0 \<le> 5 * rms_spec inputData \<and>
         (rms_spec inputData = 0.3 \<longrightarrow> volume inputData = Some 1.5)"
  using assms
  by (auto simp: volume_def Let_def sum_loop_eq rms_spec_def sum_squares_nonneg)

theorem volume_is_scaled_rms_witness:
  "[0.3, - 0.3, 0.3, - 0.3] \<noteq> ([] :: real list) \<and>
   rms_spec [0.3, - 0.3, 0.3, - 0.3] = 0.3 \<and>
   volume [0.3, - 0.3, 0.3, - 0.3] = Some 1.5"
  using volume_is_scaled_rms [of "[0.3, - 0.3, 0.3, - 0.3]"] rms_scenario by simp

section \<open>Claims about the transcript\<close>

lemma feed_snoc:
  "feed h (evs @ [(now, r, t, fin)]) msgs = h now r t fin (feed h evs msgs)"
  by (simp add: feed_def)

lemma alternating_snoc:
  "alternating (ms @ [m]) \<longleftrightarrow> alternating ms \<and> (ms \<noteq> [] \<longrightarrow> role (last ms) \<noteq> role m)"
proof
  assume a: "alternating (ms @ [m])"
  have "alternating ms"
    unfolding alternating_def
  proof (intro allI impI)
    fix i assume "Suc i < length ms"
    with a [unfolded alternating_def, rule_format, of i]
    show "role (ms ! i) \<noteq> role (ms ! Suc i)" by (simp add: nth_append)
  qed
  moreover have "ms \<noteq> [] \<longrightarrow> role (last ms) \<noteq> role m"
  proof
    assume ne: "ms \<noteq> []"
    then have "Suc (length ms - 1) < length (ms @ [m])" by simp
    from a [unfolded alternating_def, rule_format, OF this] ne
    show "role (last ms) \<noteq> role m" by (simp add: nth_append last_conv_nth)
  qed
  ultimately show "alternating ms \<and> (ms \<noteq> [] \<longrightarrow> role (last ms) \<noteq> role m)" ..
next
  assume b: "alternating ms \<and> (ms \<noteq> [] \<longrightarrow> role (last ms) \<noteq> role m)"
  show "alternating (ms @ [m])"
    unfolding alternating_def
  proof (intro allI impI)
    fix i assume i: "Suc i < length (ms @ [m])"
    show "role ((ms @ [m]) ! i) \<noteq> role ((ms @ [m]) ! Suc i)"
    proof (cases "Suc i < length ms")
      case True
      with b show ?thesis by (simp add: alternating_def nth_append)
    next
      case False
      with i have eq: "i = length ms - 1" and ne: "ms \<noteq> []" by auto
      with b have "role (ms ! i) \<noteq> role m" by (simp add: last_conv_nth)
      with eq ne show ?thesis by (simp add: nth_append)
    qed
  qed
qed

lemma onTranscriptUpdate_alternating:
  assumes "alternating prev"
  shows "alternating (onTranscriptUpdate now r t fin prev)"
proof (cases "prev \<noteq> [] \<and> role (last prev) = r")
  case True
  then obtain ms m where p: "prev = ms @ [m]" by (metis append_butlast_last_id)
  with assms True show ?thesis by (simp add: onTranscriptUpdate_def alternating_snoc)
next
  case False
  with assms show ?thesis by (auto simp: onTranscriptUpdate_def alternating_snoc)
qed

lemma onTranscriptUpdate_text:
  "concat (map text_msg (onTranscriptUpdate now r t fin prev)) = concat (map text_msg prev) @ t"
proof (cases "prev \<noteq> [] \<and> role (last prev) = r")
  case True
  then obtain ms m where p: "prev = ms @ [m]" by (metis append_butlast_last_id)
  with True show ?thesis by (simp add: onTranscriptUpdate_def)
next
  case False
  then show ?thesis by (auto simp: onTranscriptUpdate_def)
qed

lemma onTranscriptUpdate_isFinal:
  assumes "\<forall>m \<in> set prev. isFinal m = None"
  shows "\<forall>m \<in> set (onTranscriptUpdate now r t fin prev). isFinal m = None"
proof (cases "prev \<noteq> [] \<and> role (last prev) = r")
  case True
  then obtain ms m where p: "prev = ms @ [m]" by (metis append_butlast_last_id)
  with True assms show ?thesis by (simp add: onTranscriptUpdate_def)
next
  case False
  with assms show ?thesis by (auto simp: onTranscriptUpdate_def)
qed

lemma feed_onTranscriptUpdate:
  "alternating (feed onTranscriptUpdate evs []) \<and>
   (\<forall>m \<in> set (feed onTranscriptUpdate evs []). isFinal m = None) \<and>
   concat (map text_msg (feed onTranscriptUpdate evs [])) =
     concat (map (\<lambda>(now, r, t, fin). t) evs)"
proof (induction evs rule: rev_induct)
  case Nil
  then show ?case by (simp add: feed_def alternating_def)
next
  case (snoc e evs)
  obtain now r t fin where e: "e = (now, r, t, fin)" by (cases e)
  let ?prev = "feed onTranscriptUpdate evs []"
  from snoc have a: "alternating ?prev" and f: "\<forall>m \<in> set ?prev. isFinal m = None"
    and c: "concat (map text_msg ?prev) = concat (map (\<lambda>(now, r, t, fin). t) evs)"
    by simp_all
  have "alternating (onTranscriptUpdate now r t fin ?prev)"
    using a by (rule onTranscriptUpdate_alternating)
  moreover have "\<forall>m \<in> set (onTranscriptUpdate now r t fin ?prev). isFinal m = None"
    using f by (rule onTranscriptUpdate_isFinal)
  moreover have "concat (map text_msg (onTranscriptUpdate now r t fin ?prev)) =
                   concat (map (\<lambda>(now, r, t, fin). t) (evs @ [e]))"
    by (simp add: onTranscriptUpdate_text c e)
  ultimately show ?case
    unfolding e feed_snoc by (intro conjI)
qed

text \<open>
  The callback \<^verbatim>\<open>handleTranscriptUpdate\<close>, which no service is given, follows the rule
  with the finalized flag: it appends to the last turn when the role is the same and
  that turn is not finalized, and sets the flag from the event; otherwise it starts a
  new turn.
\<close>

lemma handleTranscriptUpdate_rule:
  "(prev \<noteq> [] \<and> role (last prev) = r \<and> isFinal (last prev) \<noteq> Some True \<longrightarrow>
      handleTranscriptUpdate now r t fin prev =
        butlast prev @
        [(last prev)\<lparr>text_msg := text_msg (last prev) @ t, isFinal := Some fin\<rparr>]) \<and>
   (prev = [] \<or> role (last prev) \<noteq> r \<or> isFinal (last prev) = Some True \<longrightarrow>
      handleTranscriptUpdate now r t fin prev =
        prev @ [\<lparr>id_msg = now, role = r, text_msg = t, isFinal = Some fin\<rparr>]) \<and>
   feed handleTranscriptUpdate
     [(''1'', User, ''Bon'', False), (''2'', User, ''jour'', True)] [] =
     [\<lparr>id_msg = ''1'', role = User, text_msg = ''Bonjour'', isFinal = Some True\<rparr>] \<and>
   length (feed handleTranscriptUpdate
     [(''1'', User, ''Hi'', True), (''2'', Assistant, ''Hello'', False)] []) = 2"
proof -
  have "prev[length prev - 1 := x] = butlast prev @ [x]" if "prev \<noteq> []" for x
  proof -
    from that obtain ms m where "prev = ms @ [m]" by (metis append_butlast_last_id)
    then show ?thesis by simp
  qed
  then show ?thesis
    by (auto simp: handleTranscriptUpdate_def feed_def)
qed

text \<open>
  Claim C4, as stated: an event whose role is that of the last turn is appended to it
  when that turn is not finalized, and sets its finalized flag; a change of role or a
  finalized last turn starts a new turn; so \<open>(user, "Bon", false)\<close> then
  \<open>(user, "jour", true)\<close> give one turn that is finalized. The handler that the
  component installs on the service compares the roles only and drops the flag: the turn
  \<open>Bonjour\<close> carries no finalized flag, and two final fragments of the assistant are
  merged into one turn.
\<close>

theorem transcript_finalized_counterexample:
  "feed onTranscriptUpdate [(''1'', User, ''Bon'', False), (''2'', User, ''jour'', True)] [] =
     [\<lparr>id_msg = ''1'', role = User, text_msg = ''Bonjour'', isFinal = None\<rparr>] \<and>
   feed onTranscriptUpdate
     [(''1'', Assistant, ''Bon'', True), (''2'', Assistant, ''jour'', True)] [] =
     [\<lparr>id_msg = ''1'', role = Assistant, text_msg = ''Bonjour'', isFinal = None\<rparr>]"
  by (simp add: feed_def onTranscriptUpdate_def)

text \<open>
  Claim C4, amended: for every stream of \<open>(role, textFragment, isFinal)\<close> transcript
  events, handled by the handler that is installed on the service: if the incoming role
  equals the role of the last turn, the fragment is appended to the text of the last
  turn, finalized or not, and nothing else of the turn changes; if the role changes, or
  there is no turn yet, a new turn is started with \<open>text = textFragment\<close>. The incoming
  \<open>isFinal\<close> is not recorded: no turn carries a finalized flag. So neighbouring turns
  have different roles, and the texts of the turns, put together, are the fragments put
  together. Feeding \<open>(user, "Bon", false)\<close> then \<open>(user, "jour", true)\<close> yields the one
  turn \<open>{role: user, text: "Bonjour"}\<close>, and feeding \<open>(user, "Hi", true)\<close> then
  \<open>(assistant, "Hello", false)\<close> yields two turns.
\<close>

theorem transcript_aggregation:
  "(prev \<noteq> [] \<and> role (last prev) = r \<longrightarrow>
      onTranscriptUpdate now r t fin prev =
        butlast prev @ [(last prev)\<lparr>text_msg := text_msg (last prev) @ t\<rparr>]) \<and>
   (prev = [] \<or> role (last prev) \<noteq> r \<longrightarrow>
      onTranscriptUpdate now r t fin prev =
        prev @ [\<lparr>id_msg = now, role = r, text_msg = t, isFinal = None\<rparr>]) \<and>
   alternating (feed onTranscriptUpdate evs []) \<and>
   (\<forall>m \<in> set (feed onTranscriptUpdate evs []). isFinal m = None) \<and>
   concat (map text_msg (feed onTranscriptUpdate evs [])) =
     concat (map (\<lambda>(now, r, t, fin). t) evs) \<and>
   feed onTranscriptUpdate [(''1'', User, ''Bon'', False), (''2'', User, ''jour'', True)] [] =
     [\<lparr>id_msg = ''1'', role = User, text_msg = ''Bonjour'', isFinal = None\<rparr>] \<and>
   length (feed onTranscriptUpdate
     [(''1'', User, ''Hi'', True), (''2'', Assistant, ''Hello'', False)] []) = 2"
proof -
  have "feed onTranscriptUpdate
          [(''1'', User, ''Bon'', False), (''2'', User, ''jour'', True)] [] =
        [\<lparr>id_msg = ''1'', role = User, text_msg = ''Bonjour'', isFinal = None\<rparr>]"
    by (simp add: feed_def onTranscriptUpdate_def)
  moreover have "length (feed onTranscriptUpdate
     [(''1'', User, ''Hi'', True), (''2'', Assistant, ''Hello'', False)] []) = 2"
    by (simp add: feed_def onTranscriptUpdate_def)
  moreover have "prev \<noteq> [] \<and> role (last prev) = r \<longrightarrow>
      onTranscriptUpdate now r t fin prev =
        butlast prev @ [(last prev)\<lparr>text_msg := text_msg (last prev) @ t\<rparr>]"
    by (simp add: onTranscriptUpdate_def)
  moreover have "prev = [] \<or> role (last prev) \<noteq> r \<longrightarrow>
      onTranscriptUpdate now r t fin prev =
        prev @ [\<lparr>id_msg = now, role = r, text_msg = t, isFinal = None\<rparr>]"
    by (auto simp: onTranscriptUpdate_def)
  ultimately show ?thesis
    using feed_onTranscriptUpdate [of evs] by (intro conjI) simp_all
qed

theorem transcript_aggregation_witness:
  "[\<lparr>id_msg = ''1'', role = User, text_msg = ''Bon'', isFinal = None\<rparr>] \<noteq> [] \<and>
   role (last [\<lparr>id_msg = ''1'', role = User, text_msg = ''Bon'', isFinal = None\<rparr>]) = User \<and>
   onTranscriptUpdate ''2'' User ''jour'' True
     [\<lparr>id_msg = ''1'', role = User, text_msg = ''Bon'', isFinal = None\<rparr>] =
     [\<lparr>id_msg = ''1'', role = User, text_msg = ''Bonjour'', isFinal = None\<rparr>] \<and>
   role (last [\<lparr>id_msg = ''1'', role = User, text_msg = ''Hi'', isFinal = None\<rparr>])
     \<noteq> Assistant \<and>
   onTranscriptUpdate ''2'' Assistant ''Hello'' False
     [\<lparr>id_msg = ''1'', role = User, text_msg = ''Hi'', isFinal = None\<rparr>] =
     [\<lparr>id_msg = ''1'', role = User, text_msg = ''Hi'', isFinal = None\<rparr>,
      \<lparr>id_msg = ''2'', role = Assistant, text_msg = ''Hello'', isFinal = None\<rparr>]"
proof -
  have h1: "[\<lparr>id_msg = ''1'', role = User, text_msg = ''Bon'', isFinal = None\<rparr>] \<noteq> [] \<and>
    role (last [\<lparr>id_msg = ''1'', role = User, text_msg = ''Bon'', isFinal = None\<rparr>]) = User"
    by simp
  have h2: "[\<lparr>id_msg = ''1'', role = User, text_msg = ''Hi'', isFinal = None\<rparr>] = [] \<or>
    role (last [\<lparr>id_msg = ''1'', role = User, text_msg = ''Hi'', isFinal = None\<rparr>])
      \<noteq> Assistant"
    by simp
  from transcript_aggregation
         [of "[\<lparr>id_msg = ''1'', role = User, text_msg = ''Bon'', isFinal = None\<rparr>]"
             User "''2''" "''jour''" True "[]"] h1
  have a: "onTranscriptUpdate ''2'' User ''jour'' True
     [\<lparr>id_msg = ''1'', role = User, text_msg = ''Bon'', isFinal = None\<rparr>] =
     [\<lparr>id_msg = ''1'', role = User, text_msg = ''Bonjour'', isFinal = None\<rparr>]"
    by simp
  from transcript_aggregation
         [of "[\<lparr>id_msg = ''1'', role = User, text_msg = ''Hi'', isFinal = None\<rparr>]"
             Assistant "''2''" "''Hello''" False "[]"] h2
  have b: "onTranscriptUpdate ''2'' Assistant ''Hello'' False
     [\<lparr>id_msg = ''1'', role = User, text_msg = ''Hi'', isFinal = None\<rparr>] =
     [\<lparr>id_msg = ''1'', role = User, text_msg = ''Hi'', isFinal = None\<rparr>,
      \<lparr>id_msg = ''2'', role = Assistant, text_msg = ''Hello'', isFinal = None\<rparr>]"
    by simp
  from h1 h2 a b show ?thesis by simp
qed

end
